theory Spec2Isabelle
  imports Complex_Main "HOL-Library.AList" "HOL-Library.Char_ord" "HOL-Library.List_Lexorder"
begin

chapter \<open>mongodrums: a shallow embedding of the profiling layer\<close>

text \<open>
  The development follows the three source modules: \<^verbatim>\<open>util/__init__.py\<close> (document
  skeletons, key sanitisation, call-site resolution), \<^verbatim>\<open>sink.py\<close> (the collector-side
  sinks) and \<^verbatim>\<open>instrument.py\<close> (the interceptors installed on the driver).
  All definitions come first; the lemmas and the theorems for the individual claims
  follow, grouped by module.
\<close>

section \<open>Python values, runtime types and exceptions\<close>

text \<open>
  The utilities dispatch on \<^verbatim>\<open>type(value)\<close>. A value is therefore modelled together with
  its runtime type: a \<^verbatim>\<open>list\<close>, a plain \<^verbatim>\<open>dict\<close>, a field-ordered \<^verbatim>\<open>SON\<close> mapping, a
  scalar of one of the thirteen leaf types of \<^verbatim>\<open>BSON_TYPES\<close> (with its content as text), or
  a value of any other type (carrying the name of that type). Dictionaries are
  association lists in iteration order; keys are strings.
\<close>

datatype bson_leaf =
    T_int | T_long | T_str | T_unicode | T_bool | T_float | T_datetime
  | T_ObjectId | T_regex | T_Code | T_NoneType | T_Binary | T_DBRef

datatype pytype = T_list | T_dict | T_SON | T_leaf bson_leaf | T_other string

datatype pyval =
    PList "pyval list"
  | PDict "(string \<times> pyval) list"
  | PSON "(string \<times> pyval) list"
  | PLeaf bson_leaf string
  | POther string

text \<open>
  Exceptions are values. Only subclasses of \<^verbatim>\<open>Exception\<close> are modelled. \<open>OperationFailure\<close>
  stands for pymongo's class and its subclasses other than \<^verbatim>\<open>DuplicateKeyError\<close>, which
  \<^verbatim>\<open>sink.py\<close> names; \<open>OtherException\<close> stands for every class that no handler of the
  sources names (a connection failure, an attribute error, ...).
\<close>

datatype exn =
    InvalidDocument pytype
  | TypeError
  | OperationFailure
  | IndexError
  | KeyError string
  | AssertionError
  | DuplicateKeyError
  | OtherException string

fun type_of :: "pyval \<Rightarrow> pytype" where
  "type_of (PList xs) = T_list"
| "type_of (PDict kvs) = T_dict"
| "type_of (PSON kvs) = T_SON"
| "type_of (PLeaf t s) = T_leaf t"
| "type_of (POther n) = T_other n"

text \<open>\<^verbatim>\<open>BSON_TYPES\<close>, in the order of the source; note that \<^verbatim>\<open>SON\<close> is a member.\<close>

definition BSON_TYPES :: "pytype list" where
  "BSON_TYPES =
     [T_leaf T_int, T_leaf T_long, T_leaf T_str, T_leaf T_unicode, T_leaf T_bool,
      T_leaf T_float, T_leaf T_datetime, T_leaf T_ObjectId, T_leaf T_regex, T_leaf T_Code,
      T_leaf T_NoneType, T_leaf T_Binary, T_leaf T_DBRef, T_SON]"

section \<open>Strings\<close>

text \<open>
  \<^verbatim>\<open>s.replace(old, new)\<close>: every occurrence of \<open>old\<close>, found from the left and without
  overlap, becomes \<open>new\<close>; an empty \<open>old\<close> matches before every character and at the end.
\<close>

fun replace :: "string \<Rightarrow> string \<Rightarrow> string \<Rightarrow> string" where
  "replace [] new s = new @ concat (map (\<lambda>c. c # new) s)"
| "replace (a # old) new [] = []"
| "replace (a # old) new (c # cs) =
     (if take (Suc (length old)) (c # cs) = a # old
      then new @ replace (a # old) new (drop (length old) cs)
      else c # replace (a # old) new cs)"

text \<open>\<^verbatim>\<open>sub in s\<close> for strings.\<close>

fun contains :: "string \<Rightarrow> string \<Rightarrow> bool" where
  "contains sub [] = (sub = [])"
| "contains sub (c # cs) = (take (length sub) (c # cs) = sub \<or> contains sub cs)"

text \<open>\<^verbatim>\<open>sep.join(parts)\<close>.\<close>

fun join :: "string \<Rightarrow> string list \<Rightarrow> string" where
  "join sep [] = []"
| "join sep [x] = x"
| "join sep (x # y # ys) = x @ sep @ join sep (y # ys)"

text \<open>\<^verbatim>\<open>s.startswith(prefix)\<close>.\<close>

definition startswith :: "string \<Rightarrow> string \<Rightarrow> bool" where
  "startswith s pre = (take (length pre) s = pre)"

text \<open>\<^verbatim>\<open>s.rpartition(sep)[0]\<close> for a one-character separator: the text before the last
  separator, empty when there is none.\<close>

definition rpartition_head :: "char \<Rightarrow> string \<Rightarrow> string" where
  "rpartition_head sep s =
     (if sep \<in> set s then rev (tl (dropWhile (\<lambda>c. c \<noteq> sep) (rev s))) else [])"

text \<open>\<^verbatim>\<open>'%d' % n\<close>.\<close>

fun digits :: "nat \<Rightarrow> string" where
  "digits n =
     (if n < 10 then [''0123456789'' ! n]
      else digits (n div 10) @ [''0123456789'' ! (n mod 10)])"

definition str_int :: "int \<Rightarrow> string" where
  "str_int i = (if i < 0 then CHR ''-'' # digits (nat (- i)) else digits (nat i))"

section \<open>Sequences and dictionaries\<close>

text \<open>\<^verbatim>\<open>xs[i]\<close> and \<^verbatim>\<open>xs[i:]\<close> with Python's treatment of negative indices.\<close>

definition py_index :: "'a list \<Rightarrow> int \<Rightarrow> exn + 'a" where
  "py_index xs i =
     (if i < - int (length xs) \<or> int (length xs) \<le> i then Inl IndexError
      else if i < 0 then Inr (xs ! nat (int (length xs) + i))
      else Inr (xs ! nat i))"

definition py_slice_from :: "'a list \<Rightarrow> int \<Rightarrow> 'a list" where
  "py_slice_from xs i =
     (let n = int (length xs) in drop (nat (if i < 0 then max 0 (n + i) else i)) xs)"

text \<open>
  \<^verbatim>\<open>dict(pairs)\<close>: the pairs are stored one after the other, a later pair overwriting the
  value of a key already present. \<^verbatim>\<open>d[key]\<close> raises \<^verbatim>\<open>KeyError\<close> for an absent key and
  \<^verbatim>\<open>TypeError\<close> on a value that is no mapping.
\<close>

definition dict_of :: "(string \<times> 'v) list \<Rightarrow> (string \<times> 'v) list" where
  "dict_of items = foldl (\<lambda>d (k, v). AList.update k v d) [] items"

fun getitem :: "pyval \<Rightarrow> string \<Rightarrow> exn + pyval" where
  "getitem (PDict d) k = (case map_of d k of None \<Rightarrow> Inl (KeyError k) | Some v \<Rightarrow> Inr v)"
| "getitem (PSON d) k = (case map_of d k of None \<Rightarrow> Inl (KeyError k) | Some v \<Rightarrow> Inr v)"
| "getitem v k = Inl TypeError"

section \<open>util: skeleton, sanitize, desanitize\<close>

text \<open>
  \<^verbatim>\<open>_p_skeleton\<close> (an Isabelle name cannot start with an underscore). The two loops carry
  the list \<open>out\<close> as the source does; the function returns \<open>None\<close> for a scalar leaf, as
  the source falls off the end of its \<^verbatim>\<open>if\<close> chain.
\<close>

lemma map_of_size_less:
  "map_of d k = Some v \<Longrightarrow> size v < size (PDict d)"
  by (induction d) (auto split: if_splits)

function (sequential) p_skeleton :: "pyval \<Rightarrow> exn + string option"
  and skeleton_elements :: "pyval list \<Rightarrow> string list \<Rightarrow> exn + string list"
  and skeleton_keys ::
    "(string \<times> pyval) list \<Rightarrow> string list \<Rightarrow> string list \<Rightarrow> exn + string list"
where
  "p_skeleton (PList xs) =
     map_sum id (\<lambda>out. Some (''['' @ join '','' out @ '']'')) (skeleton_elements xs [])"
| "p_skeleton (PDict d) =
     map_sum id (\<lambda>out. Some (''{'' @ join '','' out @ ''}''))
       (skeleton_keys d (sort (map fst d)) [])"
| "p_skeleton (PSON d) =
     map_sum id (\<lambda>out. Some (''{'' @ join '','' out @ ''}''))
       (skeleton_keys d (sort (map fst d)) [])"
| "p_skeleton v =
     (if type_of v \<notin> set BSON_TYPES then Inl (InvalidDocument (type_of v)) else Inr None)"
| "skeleton_elements [] out = Inr out"
| "skeleton_elements (element # rest) out =
     (case p_skeleton element of
        Inl e \<Rightarrow> Inl e
      | Inr sub \<Rightarrow>
          skeleton_elements rest (case sub of Some s \<Rightarrow> out @ [s] | None \<Rightarrow> out))"
| "skeleton_keys d [] out = Inr out"
| "skeleton_keys d (key # rest) out =
     (case map_of d key of
        None \<Rightarrow> Inl (KeyError key)
      | Some v \<Rightarrow>
          (case p_skeleton v of
             Inl e \<Rightarrow> Inl e
           | Inr sub \<Rightarrow>
               skeleton_keys d rest
                 (out @ [case sub of Some s \<Rightarrow> key @ '':'' @ s | None \<Rightarrow> key])))"
  by pat_completeness auto
termination
  apply (relation "measures
     [\<lambda>x. case x of Inl v \<Rightarrow> size v
         | Inr (Inl (xs, out)) \<Rightarrow> size (PList xs)
         | Inr (Inr (d, ks, out)) \<Rightarrow> size (PDict d),
      \<lambda>x. case x of Inl v \<Rightarrow> 1
         | Inr (Inl (xs, out)) \<Rightarrow> 0
         | Inr (Inr (d, ks, out)) \<Rightarrow> 0,
      \<lambda>x. case x of Inl v \<Rightarrow> 0
         | Inr (Inl (xs, out)) \<Rightarrow> 0
         | Inr (Inr (d, ks, out)) \<Rightarrow> length ks]")
  apply (auto dest: map_of_size_less)
  done

text \<open>
  \<^verbatim>\<open>skeleton(o)\<close>. \<^verbatim>\<open>loads\<close> and \<^verbatim>\<open>dumps\<close> belong to the driver's JSON module and are
  parameters: \<open>loads\<close> parses a text or raises, \<open>dumps\<close> encodes the shape (or \<^verbatim>\<open>None\<close>).
\<close>

definition isinstance_basestring :: "pyval \<Rightarrow> bool" where
  "isinstance_basestring v = (type_of v = T_leaf T_str \<or> type_of v = T_leaf T_unicode)"

fun text_of :: "pyval \<Rightarrow> string" where
  "text_of (PLeaf t s) = s"
| "text_of v = []"

definition skeleton ::
  "(string \<Rightarrow> exn + pyval) \<Rightarrow> (string option \<Rightarrow> string) \<Rightarrow> pyval \<Rightarrow> exn + string" where
  "skeleton loads dumps v =
     (case (if isinstance_basestring v then loads (text_of v) else Inr v) of
        Inl e \<Rightarrow> Inl e
      | Inr doc \<Rightarrow> map_sum id dumps (p_skeleton doc))"

text \<open>\<^verbatim>\<open>_p_sanitize\<close> and \<^verbatim>\<open>_p_desanitize\<close>: the branch order of the source, with the key
  rewriting of the two \<^verbatim>\<open>dict\<close> branches named.\<close>

definition sanitize_key :: "string \<Rightarrow> string" where
  "sanitize_key k = replace ''.'' ''_,_'' (replace ''$'' ''_$_'' k)"

definition desanitize_key :: "string \<Rightarrow> string" where
  "desanitize_key k = replace ''_,_'' ''.'' (replace ''_$_'' ''$'' k)"

fun p_sanitize :: "pyval \<Rightarrow> exn + pyval"
  and sanitize_list :: "pyval list \<Rightarrow> exn + pyval list"
  and sanitize_items :: "(string \<times> pyval) list \<Rightarrow> exn + (string \<times> pyval) list"
where
  "p_sanitize (PList xs) = map_sum id PList (sanitize_list xs)"
| "p_sanitize (PDict kvs) = map_sum id (\<lambda>items. PDict (dict_of items)) (sanitize_items kvs)"
| "p_sanitize v =
     (if type_of v \<notin> set BSON_TYPES then Inl (InvalidDocument (type_of v)) else Inr v)"
| "sanitize_list [] = Inr []"
| "sanitize_list (x # xs) =
     (case p_sanitize x of
        Inl e \<Rightarrow> Inl e
      | Inr y \<Rightarrow> map_sum id ((#) y) (sanitize_list xs))"
| "sanitize_items [] = Inr []"
| "sanitize_items ((k, v) # kvs) =
     (case p_sanitize v of
        Inl e \<Rightarrow> Inl e
      | Inr y \<Rightarrow> map_sum id ((#) (sanitize_key k, y)) (sanitize_items kvs))"

fun p_desanitize :: "pyval \<Rightarrow> exn + pyval"
  and desanitize_list :: "pyval list \<Rightarrow> exn + pyval list"
  and desanitize_items :: "(string \<times> pyval) list \<Rightarrow> exn + (string \<times> pyval) list"
where
  "p_desanitize (PList xs) = map_sum id PList (desanitize_list xs)"
| "p_desanitize (PDict kvs) =
     map_sum id (\<lambda>items. PDict (dict_of items)) (desanitize_items kvs)"
| "p_desanitize v =
     (if type_of v \<notin> set BSON_TYPES then Inl (InvalidDocument (type_of v)) else Inr v)"
| "desanitize_list [] = Inr []"
| "desanitize_list (x # xs) =
     (case p_desanitize x of
        Inl e \<Rightarrow> Inl e
      | Inr y \<Rightarrow> map_sum id ((#) y) (desanitize_list xs))"
| "desanitize_items [] = Inr []"
| "desanitize_items ((k, v) # kvs) =
     (case p_desanitize v of
        Inl e \<Rightarrow> Inl e
      | Inr y \<Rightarrow> map_sum id ((#) (desanitize_key k, y)) (desanitize_items kvs))"

definition sanitize :: "pyval \<Rightarrow> exn + pyval" where
  "sanitize v = p_sanitize v"

definition desanitize :: "pyval \<Rightarrow> exn + pyval" where
  "desanitize v = p_desanitize v"

section \<open>util: call-site resolution\<close>

text \<open>
  A stack entry of \<^verbatim>\<open>inspect.stack()\<close> gives the frame's globals (of which \<^verbatim>\<open>get_pkg\<close>
  reads \<^verbatim>\<open>__package__\<close>, which may be present and \<^verbatim>\<open>None\<close>, and \<^verbatim>\<open>__name__\<close>), the file
  name and the line number. The stack itself is a parameter of \<open>get_source\<close>.
\<close>

record globals =
  g_package :: "string option option"
  g_name :: "string option"

record frame =
  f_globals :: globals
  filename :: string
  lineno :: int

definition get_pkg :: "globals \<Rightarrow> string option" where
  "get_pkg gl =
     (case g_package gl of
        Some p \<Rightarrow> p
      | None \<Rightarrow>
          (case g_name gl of
             Some n \<Rightarrow> Some (rpartition_head CHR ''.'' n)
           | None \<Rightarrow> None))"

text \<open>\<^verbatim>\<open>pkg not in filter_packages\<close>, for a collection of package names.\<close>

definition not_in_packages :: "string option \<Rightarrow> string list \<Rightarrow> bool" where
  "not_in_packages pkg filter_packages =
     (case pkg of None \<Rightarrow> True | Some p \<Rightarrow> \<not> List.member filter_packages p)"

definition get_source :: "string list option \<Rightarrow> int \<Rightarrow> frame list \<Rightarrow> exn + string" where
  "get_source filter_packages up stack =
     (case py_index stack up of
        Inl e \<Rightarrow> Inl e
      | Inr frame0 \<Rightarrow>
          (case (case filter_packages of
                   None \<Rightarrow> Inr frame0
                 | Some fp \<Rightarrow>
                     py_index
                       (filter (\<lambda>f. not_in_packages (get_pkg (f_globals f)) fp)
                          (py_slice_from stack up)) 0) of
             Inl e \<Rightarrow> Inl e
           | Inr fr \<Rightarrow> Inr (filename fr @ '':'' @ str_int (lineno fr))))"

section \<open>Predicates on values used in the statements\<close>

text \<open>
  \<open>wf_val\<close>: the association lists are dictionaries (no key twice). \<open>allowed\<close>: every
  value, at every position, has a type of the allow-list. \<open>keys_all P\<close>: every key of
  every plain dictionary reached through lists and dictionaries satisfies \<open>P\<close>.
\<close>

fun wf_val :: "pyval \<Rightarrow> bool"
  and wf_list :: "pyval list \<Rightarrow> bool"
  and wf_items :: "(string \<times> pyval) list \<Rightarrow> bool"
where
  "wf_val (PList xs) = wf_list xs"
| "wf_val (PDict d) = (distinct (map fst d) \<and> wf_items d)"
| "wf_val (PSON d) = (distinct (map fst d) \<and> wf_items d)"
| "wf_val (PLeaf t s) = True"
| "wf_val (POther n) = True"
| "wf_list [] = True"
| "wf_list (x # xs) = (wf_val x \<and> wf_list xs)"
| "wf_items [] = True"
| "wf_items ((k, v) # kvs) = (wf_val v \<and> wf_items kvs)"

fun allowed :: "pyval \<Rightarrow> bool"
  and allowed_list :: "pyval list \<Rightarrow> bool"
  and allowed_items :: "(string \<times> pyval) list \<Rightarrow> bool"
where
  "allowed (PList xs) = allowed_list xs"
| "allowed (PDict d) = allowed_items d"
| "allowed (PSON d) = allowed_items d"
| "allowed (PLeaf t s) = True"
| "allowed (POther n) = False"
| "allowed_list [] = True"
| "allowed_list (x # xs) = (allowed x \<and> allowed_list xs)"
| "allowed_items [] = True"
| "allowed_items ((k, v) # kvs) = (allowed v \<and> allowed_items kvs)"

fun keys_all :: "(string \<Rightarrow> bool) \<Rightarrow> pyval \<Rightarrow> bool"
  and keys_all_list :: "(string \<Rightarrow> bool) \<Rightarrow> pyval list \<Rightarrow> bool"
  and keys_all_items :: "(string \<Rightarrow> bool) \<Rightarrow> (string \<times> pyval) list \<Rightarrow> bool"
where
  "keys_all P (PList xs) = keys_all_list P xs"
| "keys_all P (PDict d) = keys_all_items P d"
| "keys_all P (PSON d) = True"
| "keys_all P (PLeaf t s) = True"
| "keys_all P (POther n) = True"
| "keys_all_list P [] = True"
| "keys_all_list P (x # xs) = (keys_all P x \<and> keys_all_list P xs)"
| "keys_all_items P [] = True"
| "keys_all_items P ((k, v) # kvs) = (P k \<and> keys_all P v \<and> keys_all_items P kvs)"

text \<open>The two escape tokens, and the keys on which the escaping can be undone.\<close>

definition free_of_tokens :: "string \<Rightarrow> bool" where
  "free_of_tokens k = (\<not> contains ''_$_'' k \<and> \<not> contains ''_,_'' k)"

definition roundtrip_safe :: "string \<Rightarrow> bool" where
  "roundtrip_safe k = (free_of_tokens k \<and> \<not> contains ''_,.'' k)"

definition key_ok :: "string \<Rightarrow> bool" where
  "key_ok k = (\<not> contains ''_,_'' k \<and> \<not> contains ''_,.'' k)"

text \<open>
  The shape of a document in the words of the specification: a list gives the shapes
  of its elements that have one, in order, joined by commas inside square brackets; a
  mapping gives, for its keys in sorted order, \<open>key:subshape\<close> or the bare key, joined by
  commas inside curly braces; a scalar leaf has no shape.
\<close>

definition emit :: "string \<Rightarrow> string option \<Rightarrow> string" where
  "emit key sub = (case sub of Some s \<Rightarrow> key @ '':'' @ s | None \<Rightarrow> key)"

function spec_shape :: "pyval \<Rightarrow> string option" where
  "spec_shape (PList xs) =
     Some (''['' @ join '','' (concat (map (\<lambda>x. case spec_shape x of Some s \<Rightarrow> [s] | None \<Rightarrow> []) xs))
           @ '']'')"
| "spec_shape (PDict d) =
     Some (''{'' @ join '',''
             (map (\<lambda>key. emit key (Option.bind (map_of d key) spec_shape)) (sort (map fst d)))
           @ ''}'')"
| "spec_shape (PSON d) =
     Some (''{'' @ join '',''
             (map (\<lambda>key. emit key (Option.bind (map_of d key) spec_shape)) (sort (map fst d)))
           @ ''}'')"
| "spec_shape (PLeaf t s) = None"
| "spec_shape (POther n) = None"
  by pat_completeness auto
termination
  apply (relation "measure size")
     apply simp
    apply (simp add: less_Suc_eq_le size_list_estimation')
   apply (auto dest: map_of_size_less)
  done

text \<open>\<open>blank\<close> forgets the leaf values of a document and keeps its key structure.\<close>

fun blank :: "pyval \<Rightarrow> pyval"
  and blank_list :: "pyval list \<Rightarrow> pyval list"
  and blank_items :: "(string \<times> pyval) list \<Rightarrow> (string \<times> pyval) list"
where
  "blank (PList xs) = PList (blank_list xs)"
| "blank (PDict d) = PDict (blank_items d)"
| "blank (PSON d) = PSON (blank_items d)"
| "blank (PLeaf t s) = PLeaf T_NoneType []"
| "blank (POther n) = POther n"
| "blank_list [] = []"
| "blank_list (x # xs) = blank x # blank_list xs"
| "blank_items [] = []"
| "blank_items ((k, v) # kvs) = (k, blank v) # blank_items kvs"

fun is_leaf :: "pyval \<Rightarrow> bool" where
  "is_leaf (PLeaf t s) = True"
| "is_leaf v = False"

text \<open>
  What sanitize and desanitize look at: \<open>allowed_plain\<close> holds when every value reached
  through lists and plain dictionaries has an allowed type (a \<^verbatim>\<open>SON\<close> document counts as
  a leaf, whatever it holds). \<open>escaped\<close> rewrites the keys of the plain dictionaries so
  reached, and \<open>escapes_apart\<close> says that no two keys of one of them are rewritten to
  the same key.
\<close>

fun allowed_plain :: "pyval \<Rightarrow> bool"
  and allowed_plain_list :: "pyval list \<Rightarrow> bool"
  and allowed_plain_items :: "(string \<times> pyval) list \<Rightarrow> bool"
where
  "allowed_plain (PList xs) = allowed_plain_list xs"
| "allowed_plain (PDict d) = allowed_plain_items d"
| "allowed_plain (PSON d) = True"
| "allowed_plain (PLeaf t s) = True"
| "allowed_plain (POther n) = False"
| "allowed_plain_list [] = True"
| "allowed_plain_list (x # xs) = (allowed_plain x \<and> allowed_plain_list xs)"
| "allowed_plain_items [] = True"
| "allowed_plain_items ((k, v) # kvs) = (allowed_plain v \<and> allowed_plain_items kvs)"

fun escaped :: "pyval \<Rightarrow> pyval"
  and escaped_list :: "pyval list \<Rightarrow> pyval list"
  and escaped_items :: "(string \<times> pyval) list \<Rightarrow> (string \<times> pyval) list"
where
  "escaped (PList xs) = PList (escaped_list xs)"
| "escaped (PDict d) = PDict (escaped_items d)"
| "escaped (PSON d) = PSON d"
| "escaped (PLeaf t s) = PLeaf t s"
| "escaped (POther n) = POther n"
| "escaped_list [] = []"
| "escaped_list (x # xs) = escaped x # escaped_list xs"
| "escaped_items [] = []"
| "escaped_items ((k, v) # kvs) = (sanitize_key k, escaped v) # escaped_items kvs"

fun escapes_apart :: "pyval \<Rightarrow> bool"
  and escapes_apart_list :: "pyval list \<Rightarrow> bool"
  and escapes_apart_items :: "(string \<times> pyval) list \<Rightarrow> bool"
where
  "escapes_apart (PList xs) = escapes_apart_list xs"
| "escapes_apart (PDict d) = (distinct (map (\<lambda>kv. sanitize_key (fst kv)) d) \<and> escapes_apart_items d)"
| "escapes_apart (PSON d) = True"
| "escapes_apart (PLeaf t s) = True"
| "escapes_apart (POther n) = True"
| "escapes_apart_list [] = True"
| "escapes_apart_list (x # xs) = (escapes_apart x \<and> escapes_apart_list xs)"
| "escapes_apart_items [] = True"
| "escapes_apart_items ((k, v) # kvs) = (escapes_apart v \<and> escapes_apart_items kvs)"

section \<open>sink: events and the stored collections\<close>

text \<open>
  A profiling event is the mapping the interceptors build; the collector adds the
  session, so \<^verbatim>\<open>data['session']\<close> can be missing. The plan \<open>ev_explain\<close> is a document, read
  with \<^verbatim>\<open>data['explain'][...]\<close>.
\<close>

record event =
  ev_type :: string
  ev_function :: string
  ev_database :: string
  ev_collection :: string
  ev_query :: string
  ev_explain :: pyval
  ev_source :: string
  ev_session :: "string option"

type_synonym address = string

text \<open>An entry of \<open>queries\<close> has no \<open>covered\<close> field until the first \<^verbatim>\<open>$set\<close>.\<close>

record query_entry =
  q_query :: string
  q_count :: int
  q_durations :: "pyval list"
  q_covered :: "pyval option"

record ip_doc =
  d_session :: string
  d_collection :: string
  d_index :: pyval
  d_queries :: "query_entry list"

record qp_doc =
  p_function :: string
  p_database :: string
  p_collection :: string
  p_session :: string
  p_explain :: pyval
  p_query :: string
  p_source :: string

record sink_db =
  index_profile_col :: "ip_doc list"
  query_profile_col :: "qp_doc list"

text \<open>
  The operations of the database on a collection, a list of documents in insertion
  order: \<^verbatim>\<open>update(spec, change)\<close> changes the first document that matches (no \<^verbatim>\<open>multi\<close>, no
  \<^verbatim>\<open>upsert\<close>), and the positional \<^verbatim>\<open>queries.$\<close> of a change is the first element of the
  array that matches the query on \<^verbatim>\<open>queries.query\<close>.
\<close>

fun update_first :: "('d \<Rightarrow> bool) \<Rightarrow> ('d \<Rightarrow> 'd) \<Rightarrow> 'd list \<Rightarrow> 'd list" where
  "update_first m f [] = []"
| "update_first m f (d # ds) = (if m d then f d # ds else d # update_first m f ds)"

definition has_key :: "string \<Rightarrow> string \<Rightarrow> pyval \<Rightarrow> ip_doc \<Rightarrow> bool" where
  "has_key s c i d = (d_session d = s \<and> d_collection d = c \<and> d_index d = i)"

text \<open>
  Modelled from the spec: the index definitions of the index-profile collection are
  in \<^verbatim>\<open>collection.py\<close>, which is not among the sources; the specification presupposes
  a uniqueness constraint over (session, collection, index), under which an insert of
  a second document with the same triple raises \<^verbatim>\<open>DuplicateKeyError\<close>.
\<close>

definition ip_insert :: "ip_doc list \<Rightarrow> ip_doc \<Rightarrow> exn + ip_doc list" where
  "ip_insert col doc =
     (if list_ex (has_key (d_session doc) (d_collection doc) (d_index doc)) col
      then Inl DuplicateKeyError
      else Inr (col @ [doc]))"

text \<open>\<^verbatim>\<open>{'$push': {'queries': {'query': q, 'count': 0, 'durations': []}}}\<close> on the first
  document of the key with no element of \<open>queries\<close> whose query is \<open>q\<close>.\<close>

definition push_new_query :: "string \<Rightarrow> string \<Rightarrow> pyval \<Rightarrow> string \<Rightarrow> ip_doc list \<Rightarrow> ip_doc list" where
  "push_new_query s c i q col =
     update_first
       (\<lambda>d. has_key s c i d \<and> list_all (\<lambda>e. q_query e \<noteq> q) (d_queries d))
       (\<lambda>d. d\<lparr>d_queries := d_queries d @
                 [\<lparr>q_query = q, q_count = 0, q_durations = [], q_covered = None\<rparr>]\<rparr>)
       col"

text \<open>\<^verbatim>\<open>$inc\<close> of \<open>count\<close>, \<^verbatim>\<open>$set\<close> of \<open>covered\<close> and \<^verbatim>\<open>$push\<close> to \<open>durations\<close> on the
  matched element of the first document of the key that has an element with query \<open>q\<close>.\<close>

definition record_query ::
  "string \<Rightarrow> string \<Rightarrow> pyval \<Rightarrow> string \<Rightarrow> pyval \<Rightarrow> pyval \<Rightarrow> ip_doc list \<Rightarrow> ip_doc list" where
  "record_query s c i q index_only millis col =
     update_first
       (\<lambda>d. has_key s c i d \<and> list_ex (\<lambda>e. q_query e = q) (d_queries d))
       (\<lambda>d. d\<lparr>d_queries :=
               update_first (\<lambda>e. q_query e = q)
                 (\<lambda>e. e\<lparr>q_count := q_count e + 1,
                         q_covered := Some index_only,
                         q_durations := q_durations e @ [millis]\<rparr>)
                 (d_queries d)\<rparr>)
       col"

section \<open>sink: the sink classes\<close>

text \<open>
  A method returns the collections as it leaves them and the exception it raises, if
  any: \<^verbatim>\<open>IndexProfileSink.send\<close> has written to the collection before its last statement
  reads \<^verbatim>\<open>indexOnly\<close> and \<^verbatim>\<open>millis\<close> from the plan. \<open>send_updates\<close> is the part of it after
  the \<^verbatim>\<open>try\<close> statement around the insert.
\<close>

definition Sink_filter :: "event \<Rightarrow> address \<Rightarrow> bool" where
  "Sink_filter data address = False"

definition ProfileSink_filter :: "event \<Rightarrow> address \<Rightarrow> bool" where
  "ProfileSink_filter data address = startswith (ev_collection data) ''$''"

definition QueryProfileSink_filter :: "event \<Rightarrow> address \<Rightarrow> bool" where
  "QueryProfileSink_filter data address = startswith (ev_collection data) ''$''"

definition send_updates ::
  "string \<Rightarrow> pyval \<Rightarrow> event \<Rightarrow> ip_doc list \<Rightarrow> ip_doc list \<times> exn option" where
  "send_updates session cursor data col1 =
     (let col2 = push_new_query session (ev_collection data) cursor (ev_query data) col1
      in (case getitem (ev_explain data) ''indexOnly'' of
            Inl e \<Rightarrow> (col2, Some e)
          | Inr index_only \<Rightarrow>
              (case getitem (ev_explain data) ''millis'' of
                 Inl e \<Rightarrow> (col2, Some e)
               | Inr millis \<Rightarrow>
                   (record_query session (ev_collection data) cursor (ev_query data)
                      index_only millis col2, None))))"

definition IndexProfileSink_send ::
  "ip_doc list \<Rightarrow> event \<Rightarrow> address \<Rightarrow> ip_doc list \<times> exn option" where
  "IndexProfileSink_send col data address =
     (case ev_session data of
        None \<Rightarrow> (col, Some (KeyError ''session''))
      | Some session \<Rightarrow>
     (case getitem (ev_explain data) ''cursor'' of
        Inl e \<Rightarrow> (col, Some e)
      | Inr cursor \<Rightarrow>
          (case ip_insert col \<lparr>d_session = session, d_collection = ev_collection data,
                               d_index = cursor, d_queries = []\<rparr> of
             Inl e \<Rightarrow>
               if e = DuplicateKeyError then send_updates session cursor data col
               else (col, Some e)
           | Inr col1 \<Rightarrow> send_updates session cursor data col1)))"

text \<open>
  Modelled from the spec: \<^verbatim>\<open>sanitize_document_keys\<close> is imported by \<^verbatim>\<open>sink.py\<close> from the
  utilities but is not defined in the module among the sources; the specification
  gives the stored plan as \<open>sanitize(event.explain)\<close>.
\<close>

definition sanitize_document_keys :: "pyval \<Rightarrow> exn + pyval" where
  "sanitize_document_keys v = sanitize v"

text \<open>\<^verbatim>\<open>save\<close> of a document that carries no identity inserts it.\<close>

definition QueryProfileSink_send ::
  "qp_doc list \<Rightarrow> event \<Rightarrow> address \<Rightarrow> qp_doc list \<times> exn option" where
  "QueryProfileSink_send col data address =
     (case ev_session data of
        None \<Rightarrow> (col, Some (KeyError ''session''))
      | Some session \<Rightarrow>
          (case sanitize_document_keys (ev_explain data) of
             Inl e \<Rightarrow> (col, Some e)
           | Inr explain \<Rightarrow>
               (col @ [\<lparr>p_function = ev_function data, p_database = ev_database data,
                         p_collection = ev_collection data, p_session = session,
                         p_explain = explain, p_query = ev_query data,
                         p_source = ev_source data\<rparr>], None)))"

text \<open>
  The two concrete classes. \<^verbatim>\<open>IndexProfileSink\<close> inherits \<open>filter\<close> from \<^verbatim>\<open>ProfileSink\<close>,
  \<^verbatim>\<open>QueryProfileSink\<close> defines its own; both inherit \<open>handle\<close> from \<^verbatim>\<open>Sink\<close>, which is
  written once, over the two methods it calls.
\<close>

datatype sink = IndexProfileSink | QueryProfileSink

fun sink_filter :: "sink \<Rightarrow> event \<Rightarrow> address \<Rightarrow> bool" where
  "sink_filter IndexProfileSink = ProfileSink_filter"
| "sink_filter QueryProfileSink = QueryProfileSink_filter"

fun sink_send :: "sink \<Rightarrow> sink_db \<Rightarrow> event \<Rightarrow> address \<Rightarrow> sink_db \<times> exn option" where
  "sink_send IndexProfileSink db data address =
     (case IndexProfileSink_send (index_profile_col db) data address of
        (col, r) \<Rightarrow> (db\<lparr>index_profile_col := col\<rparr>, r))"
| "sink_send QueryProfileSink db data address =
     (case QueryProfileSink_send (query_profile_col db) data address of
        (col, r) \<Rightarrow> (db\<lparr>query_profile_col := col\<rparr>, r))"

definition Sink_handle ::
  "(event \<Rightarrow> address \<Rightarrow> bool) \<Rightarrow> ('s \<Rightarrow> event \<Rightarrow> address \<Rightarrow> 's \<times> exn option) \<Rightarrow>
   's \<Rightarrow> event \<Rightarrow> address \<Rightarrow> 's \<times> exn option" where
  "Sink_handle filter_method send_method st data address =
     (if \<not> filter_method data address then send_method st data address else (st, None))"

definition handle :: "sink \<Rightarrow> sink_db \<Rightarrow> event \<Rightarrow> address \<Rightarrow> sink_db \<times> exn option" where
  "handle sk = Sink_handle (sink_filter sk) (sink_send sk)"

text \<open>A sink that handles the events of a list one after the other, until one raises.\<close>

fun send_all :: "ip_doc list \<Rightarrow> event list \<Rightarrow> ip_doc list \<times> exn option" where
  "send_all col [] = (col, None)"
| "send_all col (ev # evs) =
     (case IndexProfileSink_send col ev [] of
        (col', None) \<Rightarrow> send_all col' evs
      | (col', Some e) \<Rightarrow> (col', Some e))"

text \<open>An event of the key triple \<open>(s, c, i)\<close> and the query \<open>q\<close>, whose plan reports
  \<open>index_only\<close> and \<open>millis\<close>.\<close>

definition observes ::
  "string \<Rightarrow> string \<Rightarrow> pyval \<Rightarrow> string \<Rightarrow> pyval \<Rightarrow> pyval \<Rightarrow> event \<Rightarrow> bool" where
  "observes s c i q index_only millis ev =
     (ev_session ev = Some s \<and> ev_collection ev = c \<and> ev_query ev = q
      \<and> getitem (ev_explain ev) ''cursor'' = Inr i
      \<and> getitem (ev_explain ev) ''indexOnly'' = Inr index_only
      \<and> getitem (ev_explain ev) ''millis'' = Inr millis)"

text \<open>The change the second update makes to the matched element.\<close>

definition bump :: "pyval \<Rightarrow> pyval \<Rightarrow> query_entry \<Rightarrow> query_entry" where
  "bump index_only millis e =
     e\<lparr>q_count := q_count e + 1, q_covered := Some index_only,
       q_durations := q_durations e @ [millis]\<rparr>"

section \<open>instrument: the interceptors at a call\<close>

text \<open>
  The driver's objects are read through a few attributes only: a cursor has an identity
  (under which the weak set \<^verbatim>\<open>_ids\<close> holds it) and the names of its database and
  collection, a collection has the two names.
\<close>

record cursor =
  c_id :: nat
  c_database :: string
  c_collection :: string

record collection =
  col_database :: string
  col_name :: string

type_synonym kwargs = "(string \<times> pyval) list"

text \<open>
  An interceptor instance: \<^verbatim>\<open>_func\<close>, the operation it replaces, with the outcome of a
  call of it (a result or an exception), and the two parameters \<^verbatim>\<open>_configure\<close> sets.
\<close>

record ('s, 'r) wrapper =
  w_func :: "'s \<Rightarrow> pyval list \<Rightarrow> kwargs \<Rightarrow> exn + 'r"
  w_frequency :: real
  w_filter_packages :: "string list option"

text \<open>
  What the rest of the process does during one intercepted call: the outcome of
  \<^verbatim>\<open>explain()\<close> on a cursor, the text of \<^verbatim>\<open>traceback.format_exc()\<close>, \<^verbatim>\<open>dumps\<close>, the stack that
  \<^verbatim>\<open>inspect.stack()\<close> returns inside \<open>get_source\<close>, the exception \<open>push\<close> raises if any
  (\<^verbatim>\<open>pusher.py\<close> is not among the sources), and the value \<^verbatim>\<open>random.random()\<close> returns.
\<close>

record env =
  env_explain :: "cursor \<Rightarrow> exn + pyval"
  env_format_exc :: string
  env_dumps :: "pyval \<Rightarrow> exn + string"
  env_stack :: "frame list"
  env_push :: "event \<Rightarrow> exn option"
  env_random :: real

text \<open>
  The state of the module: the tracked cursors, the calls of \<open>push\<close> so far (with the
  cursor each event is about) and the messages logged.
\<close>

record istate =
  ids :: "nat set"
  push_calls :: "(nat \<times> event) list"
  logged :: "string list"

definition track_cursor :: "istate \<Rightarrow> cursor \<Rightarrow> istate" where
  "track_cursor st cursor = st\<lparr>ids := insert (c_id cursor) (ids st)\<rparr>"

text \<open>\<^verbatim>\<open>except (TypeError, OperationFailure)\<close>: \<^verbatim>\<open>DuplicateKeyError\<close> is a subclass of
  \<^verbatim>\<open>OperationFailure\<close>.\<close>

definition caught_by_explain_handler :: "exn \<Rightarrow> bool" where
  "caught_by_explain_handler e = (e = TypeError \<or> e = OperationFailure \<or> e = DuplicateKeyError)"

text \<open>The first \<^verbatim>\<open>try\<close> statement of both interceptors: the plan, the error document in
  its place, or an exception that the handler does not name.\<close>

definition try_explain :: "env \<Rightarrow> istate \<Rightarrow> cursor \<Rightarrow> istate \<times> (exn + pyval)" where
  "try_explain en st curs =
     (case env_explain en curs of
        Inr plan \<Rightarrow> (st, Inr plan)
      | Inl e \<Rightarrow>
          if caught_by_explain_handler e
          then (st\<lparr>logged := logged st @ [''error trying to run explain on curs'']\<rparr>,
                Inr (PDict [(''error'', PLeaf T_str (env_format_exc en))]))
          else (st, Inl e))"

text \<open>The event of the second \<^verbatim>\<open>try\<close> statement; the items of the dictionary display are
  evaluated in order, so \<open>dumps\<close> runs before \<open>get_source\<close>.\<close>

definition build_event ::
  "env \<Rightarrow> string list option \<Rightarrow> string \<Rightarrow> string \<Rightarrow> string \<Rightarrow> pyval \<Rightarrow> pyval \<Rightarrow> exn + event" where
  "build_event en filter_packages function database coll query_arg explain =
     (case env_dumps en query_arg of
        Inl e \<Rightarrow> Inl e
      | Inr query \<Rightarrow>
          (case get_source filter_packages 2 (env_stack en) of
             Inl e \<Rightarrow> Inl e
           | Inr source \<Rightarrow>
               Inr \<lparr>ev_type = ''explain'', ev_function = function, ev_database = database,
                    ev_collection = coll, ev_query = query, ev_explain = explain,
                    ev_source = source, ev_session = None\<rparr>))"

text \<open>The second \<^verbatim>\<open>try\<close> statement: \<^verbatim>\<open>except Exception\<close> catches what building the event
  or \<open>push\<close> raises, and logs it.\<close>

definition try_push :: "env \<Rightarrow> istate \<Rightarrow> nat \<Rightarrow> exn + event \<Rightarrow> string \<Rightarrow> istate" where
  "try_push en st about built message =
     (case built of
        Inl e \<Rightarrow> st\<lparr>logged := logged st @ [message]\<rparr>
      | Inr ev \<Rightarrow>
          (case env_push en ev of
             None \<Rightarrow> st\<lparr>push_calls := push_calls st @ [(about, ev)]\<rparr>
           | Some e \<Rightarrow> st\<lparr>push_calls := push_calls st @ [(about, ev)],
                         logged := logged st @ [message]\<rparr>))"

text \<open>\<^verbatim>\<open>_CursorMethodWrapper.__call__\<close>.\<close>

definition CursorMethodWrapper_call ::
  "(cursor, 'r) wrapper \<Rightarrow> env \<Rightarrow> istate \<Rightarrow> cursor \<Rightarrow> pyval list \<Rightarrow> kwargs \<Rightarrow>
   istate \<times> (exn + 'r)" where
  "CursorMethodWrapper_call self en st cur args kw =
     (let tracking = (c_id cur \<in> ids st) in
      if tracking then
        (if c_id cur \<notin> ids st then (st, Inl AssertionError)
         else
           let st1 = st\<lparr>ids := ids st - {c_id cur}\<rparr> in
           (case try_explain en st1 cur of
              (st2, Inl e) \<Rightarrow> (st2, Inl e)
            | (st2, Inr explain) \<Rightarrow>
                (try_push en st2 (c_id cur)
                   (build_event en (w_filter_packages self) ''find'' (c_database cur)
                      (c_collection cur) (case args of [] \<Rightarrow> PDict [] | a # rest \<Rightarrow> a) explain)
                   ''exception pushing explain data for find'',
                 w_func self cur args kw)))
      else (st, w_func self cur args kw))"

text \<open>
  \<^verbatim>\<open>UpdateWrapper.__call__\<close>. \<^verbatim>\<open>self_.find\<close> is whatever the collection's \<open>find\<close> is at the
  time (the find interceptor, when installed, tracks the cursor): a parameter that
  may change the state.
\<close>

definition UpdateWrapper_call ::
  "(collection, 'r) wrapper \<Rightarrow> env \<Rightarrow>
   (collection \<Rightarrow> pyval \<Rightarrow> istate \<Rightarrow> istate \<times> (exn + cursor)) \<Rightarrow>
   istate \<Rightarrow> collection \<Rightarrow> pyval list \<Rightarrow> kwargs \<Rightarrow> istate \<times> (exn + 'r)" where
  "UpdateWrapper_call self en find_method st coll args kw =
     (if env_random en < w_frequency self then
        (case args of
           [] \<Rightarrow> (st, Inl IndexError)
         | a # rest \<Rightarrow>
             (case find_method coll a st of
                (st1, Inl e) \<Rightarrow> (st1, Inl e)
              | (st1, Inr curs) \<Rightarrow>
                  (case try_explain en st1 curs of
                     (st2, Inl e) \<Rightarrow> (st2, Inl e)
                   | (st2, Inr explain) \<Rightarrow>
                       (try_push en st2 (c_id curs)
                          (build_event en (w_filter_packages self) ''update'' (col_database coll)
                             (col_name coll) a explain)
                          ''exception pushing explain data for update'',
                        w_func self coll args kw))))
      else (st, w_func self coll args kw))"

text \<open>\<^verbatim>\<open>FindWrapper.__call__\<close>; \<open>installed\<close> says that \<^verbatim>\<open>_cursor_wrappers\<close> is not \<^verbatim>\<open>None\<close>.\<close>

definition FindWrapper_call ::
  "(collection, cursor) wrapper \<Rightarrow> bool \<Rightarrow> env \<Rightarrow> istate \<Rightarrow> collection \<Rightarrow> pyval list \<Rightarrow> kwargs \<Rightarrow>
   istate \<times> (exn + cursor)" where
  "FindWrapper_call self installed en st coll args kw =
     (case w_func self coll args kw of
        Inl e \<Rightarrow> (st, Inl e)
      | Inr curs \<Rightarrow>
          if env_random en < w_frequency self then
            (if \<not> installed then (st, Inl AssertionError)
             else (track_cursor st curs, Inr curs))
          else (st, Inr curs))"

text \<open>
  A sequence of terminal operations of an application: each call names the
  interceptor it goes through (of \<open>next\<close>, \<open>count\<close> or \<open>distinct\<close>; the three share
  \<^verbatim>\<open>_ids\<close>), what the process does during it, the cursor and the arguments. An
  exception of one call reaches its caller; the next call is another statement of the
  application.
\<close>

record 'r terminal_call =
  tc_wrapper :: "(cursor, 'r) wrapper"
  tc_env :: env
  tc_cursor :: cursor
  tc_args :: "pyval list"
  tc_kwargs :: kwargs

definition do_call :: "istate \<Rightarrow> 'r terminal_call \<Rightarrow> istate \<times> (exn + 'r)" where
  "do_call st k =
     CursorMethodWrapper_call (tc_wrapper k) (tc_env k) st (tc_cursor k) (tc_args k) (tc_kwargs k)"

fun run_calls :: "istate \<Rightarrow> 'r terminal_call list \<Rightarrow> istate" where
  "run_calls st [] = st"
| "run_calls st (k # ks) = run_calls (fst (do_call st k)) ks"

text \<open>The number of calls of \<open>push\<close> with an event about the cursor \<open>i\<close>.\<close>

definition pushed_for :: "nat \<Rightarrow> istate \<Rightarrow> nat" where
  "pushed_for i st = length (filter (\<lambda>p. fst p = i) (push_calls st))"

text \<open>Plan retrieval returns, or raises what the handler names; and the call builds its
  event.\<close>

definition explain_handled :: "env \<Rightarrow> cursor \<Rightarrow> bool" where
  "explain_handled en cur =
     (case env_explain en cur of Inr plan \<Rightarrow> True | Inl e \<Rightarrow> caught_by_explain_handler e)"

definition builds_event :: "'r terminal_call \<Rightarrow> bool" where
  "builds_event k =
     (explain_handled (tc_env k) (tc_cursor k)
      \<and> (case env_dumps (tc_env k) (case tc_args k of [] \<Rightarrow> PDict [] | a # rest \<Rightarrow> a) of
            Inl e \<Rightarrow> False
          | Inr q \<Rightarrow>
              (case get_source (w_filter_packages (tc_wrapper k)) 2 (env_stack (tc_env k)) of
                 Inl e \<Rightarrow> False
               | Inr s \<Rightarrow> True)))"

section \<open>instrument: installing and removing the interceptors\<close>

text \<open>
  What an attribute of the two driver classes can hold: an operation of the driver
  (named), or an instance of an interceptor class with the \<^verbatim>\<open>_func\<close> it wraps. An instance
  has an identity, given when it is constructed. A \<^verbatim>\<open>FindWrapper\<close> also has
  \<^verbatim>\<open>_cursor_wrappers\<close>: \<^verbatim>\<open>None\<close>, or the list of what the \<open>wrap\<close> of the three cursor
  interceptor classes returned, instances of those classes. Reading an attribute
  through the class gives what the attribute holds.
\<close>

datatype cursor_class = CursorNextWrapper | CursorCountWrapper | CursorDistinctWrapper

datatype callable =
    Original string
  | CursorInstance "nat \<times> cursor_class \<times> callable"
  | UpdateInstance nat callable
  | FindInstance nat callable "(nat \<times> cursor_class \<times> callable) list option"

record patch_state =
  Collection_find :: callable
  Collection_update :: callable
  Cursor_next :: callable
  Cursor_count :: callable
  Cursor_distinct :: callable
  callbacks :: "nat list"
  next_oid :: nat

definition cursor_terminators :: "cursor_class list" where
  "cursor_terminators = [CursorNextWrapper, CursorCountWrapper, CursorDistinctWrapper]"

text \<open>\<^verbatim>\<open>getattr(pymongo.cursor.Cursor, cls._method_name)\<close> and the \<^verbatim>\<open>setattr\<close>.\<close>

fun getattr_Cursor :: "cursor_class \<Rightarrow> patch_state \<Rightarrow> callable" where
  "getattr_Cursor CursorNextWrapper st = Cursor_next st"
| "getattr_Cursor CursorCountWrapper st = Cursor_count st"
| "getattr_Cursor CursorDistinctWrapper st = Cursor_distinct st"

fun setattr_Cursor :: "cursor_class \<Rightarrow> callable \<Rightarrow> patch_state \<Rightarrow> patch_state" where
  "setattr_Cursor CursorNextWrapper v st = st\<lparr>Cursor_next := v\<rparr>"
| "setattr_Cursor CursorCountWrapper v st = st\<lparr>Cursor_count := v\<rparr>"
| "setattr_Cursor CursorDistinctWrapper v st = st\<lparr>Cursor_distinct := v\<rparr>"

text \<open>\<^verbatim>\<open>isinstance(meth, cls)\<close> for the interceptor classes; none is a subclass of another
  concrete one.\<close>

fun isinstance_cursor :: "callable \<Rightarrow> cursor_class \<Rightarrow> bool" where
  "isinstance_cursor (CursorInstance (oid, k, f)) cls = (k = cls)"
| "isinstance_cursor v cls = False"

fun isinstance_find :: "callable \<Rightarrow> bool" where
  "isinstance_find (FindInstance oid f ws) = True"
| "isinstance_find v = False"

fun isinstance_update :: "callable \<Rightarrow> bool" where
  "isinstance_update (UpdateInstance oid f) = True"
| "isinstance_update v = False"

text \<open>
  Modelled from the spec: \<^verbatim>\<open>register_update_callback\<close> and \<^verbatim>\<open>unregister_update_callback\<close>
  are in \<^verbatim>\<open>config.py\<close>, which is not among the sources; the specification has them add
  a callback to and remove it from the notification list. The callback
  \<^verbatim>\<open>instance._configure\<close> is named by the instance.
\<close>

definition register_update_callback :: "nat \<Rightarrow> patch_state \<Rightarrow> patch_state" where
  "register_update_callback oid st = st\<lparr>callbacks := callbacks st @ [oid]\<rparr>"

definition unregister_update_callback :: "nat \<Rightarrow> patch_state \<Rightarrow> patch_state" where
  "unregister_update_callback oid st = st\<lparr>callbacks := remove1 oid (callbacks st)\<rparr>"

text \<open>\<^verbatim>\<open>_CursorMethodWrapper.wrap\<close> and \<^verbatim>\<open>unwrap\<close>, for the class \<open>cls\<close>.\<close>

definition CursorMethodWrapper_wrap ::
  "cursor_class \<Rightarrow> patch_state \<Rightarrow> patch_state \<times> callable" where
  "CursorMethodWrapper_wrap cls st =
     (let meth = getattr_Cursor cls st in
      if \<not> isinstance_cursor meth cls then
        let meth' = CursorInstance (next_oid st, cls, meth);
            st1 = setattr_Cursor cls meth' (st\<lparr>next_oid := next_oid st + 1\<rparr>);
            st2 = register_update_callback (next_oid st) st1
        in (st2, meth')
      else (st, meth))"

definition CursorMethodWrapper_unwrap :: "cursor_class \<Rightarrow> patch_state \<Rightarrow> patch_state" where
  "CursorMethodWrapper_unwrap cls st =
     (case getattr_Cursor cls st of
        CursorInstance (oid, k, f) \<Rightarrow>
          if k = cls then setattr_Cursor cls f (unregister_update_callback oid st) else st
      | meth \<Rightarrow> st)"

text \<open>The loop of \<^verbatim>\<open>FindWrapper.wrap\<close> over \<^verbatim>\<open>_cursor_terminators\<close>, and the loop of
  \<^verbatim>\<open>FindWrapper.unwrap\<close> over \<^verbatim>\<open>_cursor_wrappers\<close> (\<open>unwrap\<close> is a class method: called on
  an instance, it is that of the instance's class).\<close>

fun wrap_terminators ::
  "cursor_class list \<Rightarrow> patch_state \<Rightarrow> (nat \<times> cursor_class \<times> callable) list \<Rightarrow>
   patch_state \<times> (nat \<times> cursor_class \<times> callable) list" where
  "wrap_terminators [] st ws = (st, ws)"
| "wrap_terminators (cls # rest) st ws =
     (case CursorMethodWrapper_wrap cls st of
        (st', CursorInstance inst) \<Rightarrow> wrap_terminators rest st' (ws @ [inst])
      | (st', meth) \<Rightarrow> wrap_terminators rest st' ws)"

fun unwrap_each :: "(nat \<times> cursor_class \<times> callable) list \<Rightarrow> patch_state \<Rightarrow> patch_state" where
  "unwrap_each [] st = st"
| "unwrap_each ((oid, k, f) # rest) st = unwrap_each rest (CursorMethodWrapper_unwrap k st)"

definition FindWrapper_wrap :: "patch_state \<Rightarrow> patch_state \<times> callable" where
  "FindWrapper_wrap st =
     (if \<not> isinstance_find (Collection_find st) then
        let oid = next_oid st;
            st1 = register_update_callback oid (st\<lparr>next_oid := oid + 1\<rparr>);
            (st2, ws) = wrap_terminators cursor_terminators st1 [];
            st3 = st2\<lparr>Collection_find := FindInstance oid (Collection_find st) (Some ws)\<rparr>
        in (st3, Collection_find st3)
      else (st, Collection_find st))"

definition FindWrapper_unwrap :: "patch_state \<Rightarrow> patch_state \<times> exn option" where
  "FindWrapper_unwrap st =
     (case Collection_find st of
        FindInstance oid f cursor_wrappers \<Rightarrow>
          (case cursor_wrappers of
             None \<Rightarrow> (st, Some TypeError)
           | Some ws \<Rightarrow>
               let st1 = unwrap_each ws st;
                   st2 = unregister_update_callback oid st1
               in (st2\<lparr>Collection_find := f\<rparr>, None))
      | meth \<Rightarrow> (st, None))"

definition UpdateWrapper_wrap :: "patch_state \<Rightarrow> patch_state \<times> callable" where
  "UpdateWrapper_wrap st =
     (if \<not> isinstance_update (Collection_update st) then
        let oid = next_oid st;
            st1 = st\<lparr>next_oid := oid + 1,
                     Collection_update := UpdateInstance oid (Collection_update st)\<rparr>;
            st2 = register_update_callback oid st1
        in (st2, Collection_update st2)
      else (st, Collection_update st))"

definition UpdateWrapper_unwrap :: "patch_state \<Rightarrow> patch_state" where
  "UpdateWrapper_unwrap st =
     (case Collection_update st of
        UpdateInstance oid f \<Rightarrow>
          (unregister_update_callback oid st)\<lparr>Collection_update := f\<rparr>
      | meth \<Rightarrow> st)"

text \<open>The driver before anything is installed.\<close>

definition pristine :: patch_state where
  "pristine =
     \<lparr>Collection_find = Original ''Collection.find'',
      Collection_update = Original ''Collection.update'',
      Cursor_next = Original ''Cursor.next'',
      Cursor_count = Original ''Cursor.count'',
      Cursor_distinct = Original ''Cursor.distinct'',
      callbacks = [], next_oid = 0\<rparr>"

section \<open>Sample data\<close>

text \<open>
  A call stack as \<open>get_source\<close> sees it from inside a cursor interceptor: its own frame,
  the interceptor's, one of the driver, and the application's (run as a script, so
  \<^verbatim>\<open>__package__\<close> is \<^verbatim>\<open>None\<close>).
\<close>

definition frame_util :: frame where
  "frame_util = \<lparr>f_globals = \<lparr>g_package = Some (Some ''mongodrums.util''),
                               g_name = Some ''mongodrums.util''\<rparr>,
                 filename = ''mongodrums/util/__init__.py'', lineno = 134\<rparr>"

definition frame_wrapper :: frame where
  "frame_wrapper = \<lparr>f_globals = \<lparr>g_package = None, g_name = Some ''mongodrums.instrument''\<rparr>,
                    filename = ''mongodrums/instrument.py'', lineno = 106\<rparr>"

definition frame_driver :: frame where
  "frame_driver = \<lparr>f_globals = \<lparr>g_package = None, g_name = Some ''pymongo.cursor''\<rparr>,
                   filename = ''pymongo/cursor.py'', lineno = 904\<rparr>"

definition frame_app :: frame where
  "frame_app = \<lparr>f_globals = \<lparr>g_package = Some None, g_name = Some ''__main__''\<rparr>,
                filename = ''app.py'', lineno = 42\<rparr>"

text \<open>An event as a cursor interceptor pushes it, with the session the collector adds,
  and the reading of the two plan fields the index-profile sink stores.\<close>

definition sample_event :: "string \<Rightarrow> string \<Rightarrow> string \<Rightarrow> event" where
  "sample_event q index_only millis =
     \<lparr>ev_type = ''explain'', ev_function = ''find'', ev_database = ''test'',
      ev_collection = ''foo'', ev_query = q,
      ev_explain = PDict [(''cursor'', PLeaf T_str ''BtreeCursor name_1''),
                          (''indexOnly'', PLeaf T_bool index_only),
                          (''millis'', PLeaf T_int millis)],
      ev_source = ''app.py:42'', ev_session = Some ''s1''\<rparr>"

definition plan_field :: "string \<Rightarrow> event \<Rightarrow> pyval" where
  "plan_field name ev =
     (case getitem (ev_explain ev) name of Inr v \<Rightarrow> v | Inl e \<Rightarrow> PLeaf T_NoneType [])"

text \<open>A process in which plan retrieval has the given outcome and everything else
  works, the interceptor of \<open>next\<close> over an operation that returns a document, and a
  cursor.\<close>

definition sample_env :: "(exn + pyval) \<Rightarrow> env" where
  "sample_env explain_outcome =
     \<lparr>env_explain = (\<lambda>c. explain_outcome), env_format_exc = ''Traceback (most recent call last)'',
      env_dumps = (\<lambda>v. Inr ''{}''),
      env_stack = [frame_util, frame_wrapper, frame_driver, frame_app],
      env_push = (\<lambda>ev. None), env_random = 0\<rparr>"

definition sample_next :: "(cursor, string) wrapper" where
  "sample_next =
     \<lparr>w_func = (\<lambda>c a k. Inr ''doc''), w_frequency = 1,
      w_filter_packages = Some [''mongodrums'', ''pymongo'']\<rparr>"

definition sample_update :: "(collection, string) wrapper" where
  "sample_update =
     \<lparr>w_func = (\<lambda>c a k. Inr ''ok''), w_frequency = 1,
      w_filter_packages = Some [''mongodrums'', ''pymongo'']\<rparr>"

definition sample_cursor :: cursor where
  "sample_cursor = \<lparr>c_id = 7, c_database = ''test'', c_collection = ''foo''\<rparr>"

definition sample_find :: "collection \<Rightarrow> pyval \<Rightarrow> istate \<Rightarrow> istate \<times> (exn + cursor)" where
  "sample_find coll spec st = (st, Inr sample_cursor)"

definition sample_call :: "(exn + pyval) \<Rightarrow> string terminal_call" where
  "sample_call explain_outcome =
     \<lparr>tc_wrapper = sample_next, tc_env = sample_env explain_outcome,
      tc_cursor = sample_cursor, tc_args = [], tc_kwargs = []\<rparr>"

text \<open>A terminal operation issued from inside the skipped packages: no frame of the
  stack is left for \<open>get_source\<close>.\<close>

definition sample_call_unsourced :: "string terminal_call" where
  "sample_call_unsourced =
     (sample_call (Inr (PDict [])))
       \<lparr>tc_env := (sample_env (Inr (PDict [])))
                    \<lparr>env_stack := [frame_util, frame_wrapper, frame_driver]\<rparr>\<rparr>"

chapter \<open>Properties of the utilities\<close>

section \<open>Escaping and unescaping one key\<close>

lemma esc_dollar_Cons:
  "replace ''$'' ''_$_'' (c # cs) =
     (if c = CHR ''$'' then ''_$_'' else [c]) @ replace ''$'' ''_$_'' cs"
  by simp

lemma esc_dot_Cons:
  "replace ''.'' ''_,_'' (c # cs) =
     (if c = CHR ''.'' then ''_,_'' else [c]) @ replace ''.'' ''_,_'' cs"
  by simp

lemma unesc_dollar_Cons:
  "replace ''_$_'' ''$'' (c # s) =
     (if c = CHR ''_'' \<and> take 2 s = ''$_''
      then CHR ''$'' # replace ''_$_'' ''$'' (drop 2 s)
      else c # replace ''_$_'' ''$'' s)"
  by (simp add: numeral_2_eq_2)

lemma unesc_dot_Cons:
  "replace ''_,_'' ''.'' (c # s) =
     (if c = CHR ''_'' \<and> take 2 s = '',_''
      then CHR ''.'' # replace ''_,_'' ''.'' (drop 2 s)
      else c # replace ''_,_'' ''.'' s)"
  by (simp add: numeral_2_eq_2)

text \<open>An escaped key never starts with a dollar sign: every dollar sign of it is the
  middle of a token.\<close>

lemma esc_no_dollar_head:
  "take 1 (replace ''.'' ''_,_'' (replace ''$'' ''_$_'' k)) \<noteq> ''$''"
  by (cases k)
    (auto simp del: replace.simps simp add: replace.simps(2) esc_dollar_Cons esc_dot_Cons)

lemma unesc_dollar_esc:
  "replace ''_$_'' ''$'' (replace ''.'' ''_,_'' (replace ''$'' ''_$_'' k)) =
   replace ''.'' ''_,_'' k"
proof (induction k)
  case Nil
  show ?case by simp
next
  case (Cons c cs)
  let ?r = "replace ''.'' ''_,_'' (replace ''$'' ''_$_'' cs)"
  have nd: "take 2 ?r \<noteq> ''$_''"
    using esc_no_dollar_head[of cs] by (cases ?r) auto
  show ?case
    using Cons.IH nd
    by (auto simp del: replace.simps simp add: esc_dollar_Cons esc_dot_Cons unesc_dollar_Cons)
qed

text \<open>Where the text after an underscore looks like the rest of a dot token once it is
  escaped, it already did (\<open>,_\<close>) or it was a comma and a dot.\<close>

lemma esc_dot_head2:
  assumes h: "take 2 (replace ''.'' ''_,_'' cs) = '',_''"
  shows "take 2 cs = '',_'' \<or> take 2 cs = '',.''"
proof (cases cs)
  case Nil
  with h show ?thesis by simp
next
  case (Cons a as)
  note outer = Cons
  show ?thesis
  proof (cases as)
    case Nil
    with outer h show ?thesis
      by (auto simp del: replace.simps
          simp add: replace.simps(2) esc_dot_Cons numeral_2_eq_2 split: if_splits)
  next
    case (Cons b bs)
    with outer h show ?thesis
      by (auto simp del: replace.simps
          simp add: replace.simps(2) esc_dot_Cons numeral_2_eq_2 split: if_splits)
  qed
qed

lemma key_ok_Cons:
  "key_ok (c # cs) \<Longrightarrow>
   key_ok cs \<and> \<not> (c = CHR ''_'' \<and> (take 2 cs = '',_'' \<or> take 2 cs = '',.''))"
  by (auto simp: key_ok_def numeral_2_eq_2)

lemma unesc_dot_esc:
  "key_ok k \<Longrightarrow> replace ''_,_'' ''.'' (replace ''.'' ''_,_'' k) = k"
proof (induction k)
  case Nil
  show ?case by simp
next
  case (Cons c cs)
  from key_ok_Cons[OF Cons.prems] have ok: "key_ok cs"
    and h: "\<not> (c = CHR ''_'' \<and> (take 2 cs = '',_'' \<or> take 2 cs = '',.''))"
    by blast+
  have IH: "replace ''_,_'' ''.'' (replace ''.'' ''_,_'' cs) = cs"
    using Cons.IH ok by simp
  show ?case
  proof (cases "c = CHR ''.''")
    case True
    then show ?thesis using IH
      by (simp del: replace.simps add: esc_dot_Cons unesc_dot_Cons)
  next
    case False
    have "\<not> (c = CHR ''_'' \<and> take 2 (replace ''.'' ''_,_'' cs) = '',_'')"
      using h esc_dot_head2[of cs] by blast
    with False IH show ?thesis
      by (simp del: replace.simps add: esc_dot_Cons unesc_dot_Cons)
  qed
qed

lemma desanitize_sanitize_key: "key_ok k \<Longrightarrow> desanitize_key (sanitize_key k) = k"
  by (simp add: desanitize_key_def sanitize_key_def unesc_dollar_esc unesc_dot_esc)

section \<open>Dictionaries built from distinct keys\<close>

lemma update_fresh: "k \<notin> fst ` set al \<Longrightarrow> AList.update k v al = al @ [(k, v)]"
  by (induction al) auto

lemma foldl_update_distinct:
  "distinct (map fst (acc @ items)) \<Longrightarrow>
   foldl (\<lambda>d (k, v). AList.update k v d) acc items = acc @ items"
proof (induction items arbitrary: acc)
  case Nil
  show ?case by simp
next
  case (Cons kv items)
  obtain k v where kv: "kv = (k, v)" by (cases kv)
  from Cons.prems kv have fresh: "k \<notin> fst ` set acc" by auto
  from Cons.prems kv have d: "distinct (map fst ((acc @ [(k, v)]) @ items))" by auto
  show ?case using Cons.IH[OF d] fresh kv by (simp add: update_fresh)
qed

lemma dict_of_distinct: "distinct (map fst items) \<Longrightarrow> dict_of items = items"
  using foldl_update_distinct[of "[]" items] by (simp add: dict_of_def)

lemma keys_all_items_fst: "keys_all_items P d \<Longrightarrow> k \<in> set (map fst d) \<Longrightarrow> P k"
  by (induction d) force+

lemma keys_all_mono:
  "(\<forall>k. P k \<longrightarrow> Q k) \<longrightarrow> keys_all P v \<longrightarrow> keys_all Q v"
  "(\<forall>k. P k \<longrightarrow> Q k) \<longrightarrow> keys_all_list P xs \<longrightarrow> keys_all_list Q xs"
  "(\<forall>k. P k \<longrightarrow> Q k) \<longrightarrow> keys_all_items P d \<longrightarrow> keys_all_items Q d"
  by (induction P v and P xs and P d rule: keys_all_keys_all_list_keys_all_items.induct) auto

lemma sanitize_keys_distinct:
  assumes "distinct ks" and "\<And>k. k \<in> set ks \<Longrightarrow> key_ok k"
  shows "distinct (map sanitize_key ks)"
proof -
  have "inj_on sanitize_key (set ks)"
    by (rule inj_on_inverseI[where g = desanitize_key])
      (simp add: assms(2) desanitize_sanitize_key)
  with assms(1) show ?thesis by (simp add: distinct_map)
qed

lemma leaf_in_BSON_TYPES: "T_leaf t \<in> set BSON_TYPES"
  by (cases t) (simp_all add: BSON_TYPES_def)

lemma SON_in_BSON_TYPES: "T_SON \<in> set BSON_TYPES"
  by (simp add: BSON_TYPES_def)

lemma other_notin_BSON_TYPES: "T_other n \<notin> set BSON_TYPES"
  by (simp add: BSON_TYPES_def)

section \<open>The round trip through sanitize and desanitize\<close>

lemma roundtrip_aux:
  "(wf_val v \<longrightarrow> allowed v \<longrightarrow> keys_all key_ok v \<longrightarrow>
      (\<exists>y. p_sanitize v = Inr y \<and> p_desanitize y = Inr v))"
  "(wf_list xs \<longrightarrow> allowed_list xs \<longrightarrow> keys_all_list key_ok xs \<longrightarrow>
      (\<exists>ys. sanitize_list xs = Inr ys \<and> desanitize_list ys = Inr xs))"
  "(wf_items kvs \<longrightarrow> allowed_items kvs \<longrightarrow> keys_all_items key_ok kvs \<longrightarrow>
      (\<exists>items. sanitize_items kvs = Inr items
         \<and> map fst items = map sanitize_key (map fst kvs)
         \<and> desanitize_items items = Inr kvs))"
proof (induction v and xs and kvs rule: p_sanitize_sanitize_list_sanitize_items.induct)
  case (2 kvs)
  show ?case
  proof (intro impI)
    assume wf: "wf_val (PDict kvs)" and al: "allowed (PDict kvs)"
      and ks: "keys_all key_ok (PDict kvs)"
    then obtain items where it: "sanitize_items kvs = Inr items"
      "map fst items = map sanitize_key (map fst kvs)" "desanitize_items items = Inr kvs"
      using 2 by auto
    from wf have d: "distinct (map fst kvs)" by simp
    have "distinct (map sanitize_key (map fst kvs))"
      using d ks keys_all_items_fst[of key_ok kvs] by (intro sanitize_keys_distinct) auto
    then have "dict_of items = items" using it(2) by (simp add: dict_of_distinct)
    moreover have "dict_of kvs = kvs" using d by (rule dict_of_distinct)
    ultimately show "\<exists>y. p_sanitize (PDict kvs) = Inr y \<and> p_desanitize y = Inr (PDict kvs)"
      using it by simp
  qed
qed (auto simp: desanitize_sanitize_key leaf_in_BSON_TYPES SON_in_BSON_TYPES)


lemma roundtrip_key_ok:
  assumes "wf_val x" and "allowed x" and "keys_all key_ok x"
  shows "\<exists>y. sanitize x = Inr y \<and> desanitize y = Inr x"
  using assms roundtrip_aux(1)[of x] by (simp add: sanitize_def desanitize_def)

text \<open>
  Claim C4, as stated: for every value built from allowed leaves, lists and mappings
  whose keys contain neither escape token, \<open>desanitize (sanitize x) = x\<close>. It fails for the
  dictionary with the single key \<open>_,.\<close> (underscore, comma, dot), which contains no
  token: its escaped form \<open>_,_,_\<close> is unescaped from the left to \<open>.,_\<close>.
\<close>

theorem C4_roundtrip_counterexample:
  "wf_val (PDict [(''_,.'', PLeaf T_int ''1'')])
   \<and> allowed (PDict [(''_,.'', PLeaf T_int ''1'')])
   \<and> keys_all free_of_tokens (PDict [(''_,.'', PLeaf T_int ''1'')])
   \<and> sanitize (PDict [(''_,.'', PLeaf T_int ''1'')]) =
       Inr (PDict [(''_,_,_'', PLeaf T_int ''1'')])
   \<and> desanitize (PDict [(''_,_,_'', PLeaf T_int ''1'')]) =
       Inr (PDict [(''.,_'', PLeaf T_int ''1'')])
   \<and> desanitize (PDict [(''_,_,_'', PLeaf T_int ''1'')]) \<noteq>
       Inr (PDict [(''_,.'', PLeaf T_int ''1'')])"
  by (simp add: sanitize_def desanitize_def sanitize_key_def desanitize_key_def dict_of_def
      free_of_tokens_def BSON_TYPES_def)

text \<open>
  Claim C4, amended: for every value \<open>x\<close> built from allowed leaves, lists and mappings
  (dictionaries without repeated keys), if no dictionary key of \<open>x\<close> contains an escape
  token or the three characters \<open>_,.\<close>, then \<open>sanitize x\<close> returns a value \<open>y\<close> and
  \<open>desanitize y\<close> returns \<open>x\<close>.
\<close>

theorem C4_roundtrip_amended:
  assumes "wf_val x" and "allowed x" and "keys_all roundtrip_safe x"
  shows "\<exists>y. sanitize x = Inr y \<and> desanitize y = Inr x"
proof -
  have "\<forall>k. roundtrip_safe k \<longrightarrow> key_ok k"
    by (simp add: roundtrip_safe_def free_of_tokens_def key_ok_def)
  with assms(3) have "keys_all key_ok x"
    using keys_all_mono(1)[of roundtrip_safe key_ok x] by blast
  with assms(1,2) show ?thesis by (rule roundtrip_key_ok)
qed

theorem C4_roundtrip_amended_witness:
  "wf_val (PDict [(''a.b$c'', PList [PDict [(''$set'', PLeaf T_int ''1'')], PLeaf T_str ''x.y''])])
   \<and> allowed (PDict [(''a.b$c'', PList [PDict [(''$set'', PLeaf T_int ''1'')], PLeaf T_str ''x.y''])])
   \<and> keys_all roundtrip_safe
       (PDict [(''a.b$c'', PList [PDict [(''$set'', PLeaf T_int ''1'')], PLeaf T_str ''x.y''])])
   \<and> (\<exists>y. sanitize
            (PDict [(''a.b$c'', PList [PDict [(''$set'', PLeaf T_int ''1'')], PLeaf T_str ''x.y''])])
           = Inr y
         \<and> desanitize y =
           Inr (PDict [(''a.b$c'', PList [PDict [(''$set'', PLeaf T_int ''1'')], PLeaf T_str ''x.y''])]))"
proof -
  let ?x = "PDict [(''a.b$c'', PList [PDict [(''$set'', PLeaf T_int ''1'')], PLeaf T_str ''x.y''])]"
  have h1: "wf_val ?x" by simp
  have h2: "allowed ?x" by simp
  have h3: "keys_all roundtrip_safe ?x"
    by (simp add: roundtrip_safe_def free_of_tokens_def)
  from C4_roundtrip_amended[OF h1 h2 h3] h1 h2 h3 show ?thesis by blast
qed

section \<open>Field-ordered mappings in sanitize and desanitize\<close>

text \<open>
  Claim C5: sanitize escapes \<open>$\<close> and \<open>.\<close> in every mapping key at every nesting level,
  the keys of field-ordered mappings included. The source tests \<^verbatim>\<open>t == dict\<close> only, and
  \<^verbatim>\<open>SON\<close> is a member of \<^verbatim>\<open>BSON_TYPES\<close>: a \<^verbatim>\<open>SON\<close> document is returned as it is, with the
  keys of every level below it untouched, where the same items in a plain dictionary
  are escaped.
\<close>

theorem C5_sanitize_SON_keys_unescaped:
  "sanitize (PSON [(''a.b'', PLeaf T_int ''1''), (''$set'', PDict [(''x.y'', PLeaf T_int ''2'')])])
     = Inr (PSON [(''a.b'', PLeaf T_int ''1''), (''$set'', PDict [(''x.y'', PLeaf T_int ''2'')])])
   \<and> sanitize (PDict [(''a.b'', PLeaf T_int ''1''), (''$set'', PDict [(''x.y'', PLeaf T_int ''2'')])])
     = Inr (PDict [(''a_,_b'', PLeaf T_int ''1''),
                   (''_$_set'', PDict [(''x_,_y'', PLeaf T_int ''2'')])])"
  by (simp add: sanitize_def sanitize_key_def dict_of_def BSON_TYPES_def)

text \<open>
  Claim C8: a value of a type outside the allow-list, at any position, makes skeleton,
  sanitize and desanitize raise the invalid-document error. Below a \<^verbatim>\<open>SON\<close> mapping only
  skeleton looks: sanitize and desanitize return the document, and raise nothing.
\<close>

theorem C8_invalid_value_below_SON:
  "sanitize (PSON [(''a'', POther ''set'')]) = Inr (PSON [(''a'', POther ''set'')])
   \<and> desanitize (PSON [(''a'', POther ''set'')]) = Inr (PSON [(''a'', POther ''set'')])
   \<and> p_skeleton (PSON [(''a'', POther ''set'')]) = Inl (InvalidDocument (T_other ''set''))
   \<and> sanitize (PDict [(''a'', POther ''set'')]) = Inl (InvalidDocument (T_other ''set''))"
  by (simp add: sanitize_def desanitize_def BSON_TYPES_def)


section \<open>The skeleton of a document\<close>



lemma allowed_items_lookup: "allowed_items d \<Longrightarrow> map_of d k = Some v \<Longrightarrow> allowed v"
  by (induction d) (auto split: if_splits)

lemma skeleton_refines_aux:
  "(allowed v \<longrightarrow> p_skeleton v = Inr (spec_shape v))"
  "(allowed_list xs \<longrightarrow>
      skeleton_elements xs out =
        Inr (out @ concat (map (\<lambda>x. case spec_shape x of Some s \<Rightarrow> [s] | None \<Rightarrow> []) xs)))"
  "(allowed_items d \<longrightarrow> set ks \<subseteq> fst ` set d \<longrightarrow>
      skeleton_keys d ks out =
        Inr (out @ map (\<lambda>key. emit key (Option.bind (map_of d key) spec_shape)) ks))"
proof (induction v and xs out and d ks out rule: p_skeleton_skeleton_elements_skeleton_keys.induct)
  case (8 d key rest out)
  show ?case
  proof (intro impI)
    assume al: "allowed_items d" and sub: "set (key # rest) \<subseteq> fst ` set d"
    then obtain v where v: "map_of d key = Some v"
      by (metis list.set_intros(1) subsetD weak_map_of_SomeI imageE prod.collapse map_of_eq_None_iff not_None_eq)
    with al have "allowed v" by (rule allowed_items_lookup)
    with 8(1)[OF v] have pv: "p_skeleton v = Inr (spec_shape v)" by simp
    from sub have sub': "set rest \<subseteq> fst ` set d" by simp
    show "skeleton_keys d (key # rest) out =
        Inr (out @ map (\<lambda>key. emit key (Option.bind (map_of d key) spec_shape)) (key # rest))"
      using 8(2)[OF v pv] al sub' v pv
      by (simp add: emit_def)
  qed
qed (auto simp: leaf_in_BSON_TYPES split: option.splits)


lemma map_of_blank_items: "map_of (blank_items d) k = map_option blank (map_of d k)"
  by (induction d) auto

lemma fst_blank_items: "map fst (blank_items d) = map fst d"
  by (induction d) auto

lemma skeleton_blank_aux:
  "p_skeleton (blank v) = p_skeleton v"
  "skeleton_elements (blank_list xs) out = skeleton_elements xs out"
  "skeleton_keys (blank_items d) ks out = skeleton_keys d ks out"
proof (induction v and xs out and d ks out rule: p_skeleton_skeleton_elements_skeleton_keys.induct)
  case (8 d key rest out)
  show ?case
  proof (cases "map_of d key")
    case None
    then show ?thesis by (simp add: map_of_blank_items)
  next
    case (Some v)
    note v = Some
    show ?thesis
    proof (cases "p_skeleton v")
      case (Inl e)
      with v 8(1)[OF v] show ?thesis by (simp add: map_of_blank_items)
    next
      case (Inr sub)
      with v 8(1)[OF v] 8(2)[OF v Inr] show ?thesis by (simp add: map_of_blank_items)
    qed
  qed
qed (auto simp: leaf_in_BSON_TYPES fst_blank_items split: sum.splits)

lemma skeleton_elements_leaves:
  "list_all is_leaf xs \<Longrightarrow> skeleton_elements xs out = Inr out"
proof (induction xs)
  case Nil
  show ?case by simp
next
  case (Cons x xs)
  then obtain t s where "x = PLeaf t s" by (cases x) auto
  with Cons show ?case by (simp add: leaf_in_BSON_TYPES)
qed

lemma skeleton_toplevel:
  "\<not> isinstance_basestring x \<Longrightarrow> allowed x \<Longrightarrow>
   skeleton loads dumps x = Inr (dumps (spec_shape x))"
  using skeleton_refines_aux(1)[of x] by (simp add: skeleton_def)


text \<open>
  Claim C7: skeleton computes shapes by the three-case recursion of the specification
  (\<open>spec_shape\<close>): on every document of allowed types \<open>_p_skeleton\<close> returns exactly that
  shape, and \<open>skeleton\<close> returns its encoding, for a parsed document and for a text that
  \<open>loads\<close> parses; a list of scalar leaves only has the shape \<open>[]\<close> whatever its length;
  and two documents that differ in their leaf values only have the same shape.
\<close>

theorem C7_skeleton_three_case_recursion:
  "(allowed x \<longrightarrow> p_skeleton x = Inr (spec_shape x))
   \<and> (\<not> isinstance_basestring x \<longrightarrow> allowed x \<longrightarrow>
        skeleton loads dumps x = Inr (dumps (spec_shape x)))
   \<and> (isinstance_basestring x \<longrightarrow> loads (text_of x) = Inr doc \<longrightarrow> allowed doc \<longrightarrow>
        skeleton loads dumps x = Inr (dumps (spec_shape doc)))
   \<and> (list_all is_leaf xs \<longrightarrow> p_skeleton (PList xs) = Inr (Some ''[]''))
   \<and> (blank y = blank z \<longrightarrow> p_skeleton y = p_skeleton z)"
proof (intro conjI impI)
  show "p_skeleton x = Inr (spec_shape x)" if "allowed x"
    using that skeleton_refines_aux(1)[of x] by simp
  show "skeleton loads dumps x = Inr (dumps (spec_shape x))"
    if "\<not> isinstance_basestring x" and "allowed x"
    using that by (rule skeleton_toplevel)
  show "skeleton loads dumps x = Inr (dumps (spec_shape doc))"
    if "isinstance_basestring x" and "loads (text_of x) = Inr doc" and "allowed doc"
    using that skeleton_refines_aux(1)[of doc] by (simp add: skeleton_def)
  show "p_skeleton (PList xs) = Inr (Some ''[]'')" if "list_all is_leaf xs"
    using that by (simp add: skeleton_elements_leaves)
  show "p_skeleton y = p_skeleton z" if "blank y = blank z"
    using that skeleton_blank_aux(1)[of y] skeleton_blank_aux(1)[of z] by simp
qed

theorem C7_skeleton_three_case_recursion_witness:
  "allowed (PDict [(''name'', PLeaf T_str ''bob''),
                   (''$or'', PList [PDict [(''b'', PLeaf T_int ''1''), (''a'', PLeaf T_int ''2'')],
                                    PLeaf T_int ''7''])])
   \<and> p_skeleton (PDict [(''name'', PLeaf T_str ''bob''),
                   (''$or'', PList [PDict [(''b'', PLeaf T_int ''1''), (''a'', PLeaf T_int ''2'')],
                                    PLeaf T_int ''7''])])
       = Inr (Some ''{$or:[{a,b}],name}'')
   \<and> spec_shape (PDict [(''name'', PLeaf T_str ''bob''),
                   (''$or'', PList [PDict [(''b'', PLeaf T_int ''1''), (''a'', PLeaf T_int ''2'')],
                                    PLeaf T_int ''7''])])
       = Some ''{$or:[{a,b}],name}''
   \<and> list_all is_leaf [PLeaf T_int ''1'', PLeaf T_int ''2'', PLeaf T_str ''x'']
   \<and> p_skeleton (PList [PLeaf T_int ''1'', PLeaf T_int ''2'', PLeaf T_str ''x'']) = Inr (Some ''[]'')
   \<and> blank (PDict [(''name'', PLeaf T_str ''bob'')]) = blank (PDict [(''name'', PLeaf T_str ''alice'')])
   \<and> p_skeleton (PDict [(''name'', PLeaf T_str ''bob'')])
       = p_skeleton (PDict [(''name'', PLeaf T_str ''alice'')])"
proof -
  let ?x = "PDict [(''name'', PLeaf T_str ''bob''),
                   (''$or'', PList [PDict [(''b'', PLeaf T_int ''1''), (''a'', PLeaf T_int ''2'')],
                                    PLeaf T_int ''7''])]"
  let ?xs = "[PLeaf T_int ''1'', PLeaf T_int ''2'', PLeaf T_str ''x'']"
  let ?y = "PDict [(''name'', PLeaf T_str ''bob'')]"
  let ?z = "PDict [(''name'', PLeaf T_str ''alice'')]"
  have a: "allowed ?x" by simp
  have s: "spec_shape ?x = Some ''{$or:[{a,b}],name}''"
    by (simp add: emit_def less_eq_char_def less_char_def)
  have l: "list_all is_leaf ?xs" by simp
  have b: "blank ?y = blank ?z" by simp
  from C7_skeleton_three_case_recursion[of ?x "\<lambda>t. Inl (OtherException ''ValueError'')"
      "\<lambda>sh. []" ?x ?xs ?y ?z] a s l b
  show ?thesis by simp
qed

section \<open>Call-site resolution\<close>
lemma find_filter_head: "filter P xs = x # rest \<Longrightarrow> List.find P xs = Some x"
  by (induction xs) (auto split: if_splits)

lemma py_index_Inl: "py_index xs i = Inl e \<Longrightarrow> e = IndexError"
  by (auto simp: py_index_def split: if_splits)

lemma get_source_all_filtered:
  assumes "list_all (\<lambda>f. \<not> not_in_packages (get_pkg (f_globals f)) fp) (py_slice_from stack up)"
  shows "get_source (Some fp) up stack = Inl IndexError"
proof -
  have "filter (\<lambda>f. not_in_packages (get_pkg (f_globals f)) fp) (py_slice_from stack up) = []"
    using assms by (simp add: list_all_iff filter_empty_conv)
  then show ?thesis
    by (auto simp: get_source_def py_index_def split: sum.splits if_splits)
qed

lemma get_source_returns:
  assumes "get_source (Some fp) up stack = Inr s"
  shows "\<exists>fr. List.find (\<lambda>f. not_in_packages (get_pkg (f_globals f)) fp) (py_slice_from stack up)
              = Some fr \<and> s = filename fr @ '':'' @ str_int (lineno fr)"
proof -
  let ?P = "\<lambda>f. not_in_packages (get_pkg (f_globals f)) fp"
  from assms obtain fr where fr: "py_index (filter ?P (py_slice_from stack up)) 0 = Inr fr"
    and s: "s = filename fr @ '':'' @ str_int (lineno fr)"
    by (auto simp: get_source_def split: sum.splits)
  from fr obtain rest where "filter ?P (py_slice_from stack up) = fr # rest"
    by (cases "filter ?P (py_slice_from stack up)") (auto simp: py_index_def split: if_splits)
  then have "List.find ?P (py_slice_from stack up) = Some fr"
    by (rule find_filter_head)
  with s show ?thesis by blast
qed


text \<open>
  Claim C10: given a skip-set, when every frame at or beyond the starting depth has its
  package in the skip-set, \<open>get_source\<close> raises (an \<^verbatim>\<open>IndexError\<close>: the first element of an
  empty filtered sequence, or the starting frame itself is missing); a \<open>file:line\<close>
  text is returned only when some frame at or beyond the starting depth has a package
  outside the skip-set, and it names the first such frame.
\<close>

theorem C10_get_source_skip_set:
  "(list_all (\<lambda>f. \<not> not_in_packages (get_pkg (f_globals f)) fp) (py_slice_from stack up) \<longrightarrow>
      get_source (Some fp) up stack = Inl IndexError)
   \<and> (get_source (Some fp) up stack = Inr s \<longrightarrow>
        (\<exists>fr. List.find (\<lambda>f. not_in_packages (get_pkg (f_globals f)) fp)
                 (py_slice_from stack up) = Some fr
              \<and> fr \<in> set (py_slice_from stack up)
              \<and> not_in_packages (get_pkg (f_globals fr)) fp
              \<and> s = filename fr @ '':'' @ str_int (lineno fr)))"
proof (intro conjI impI)
  assume "list_all (\<lambda>f. \<not> not_in_packages (get_pkg (f_globals f)) fp) (py_slice_from stack up)"
  then show "get_source (Some fp) up stack = Inl IndexError"
    by (rule get_source_all_filtered)
next
  assume "get_source (Some fp) up stack = Inr s"
  from get_source_returns[OF this] obtain fr where
    f: "List.find (\<lambda>f. not_in_packages (get_pkg (f_globals f)) fp) (py_slice_from stack up)
          = Some fr"
    and s: "s = filename fr @ '':'' @ str_int (lineno fr)" by blast
  from f have "fr \<in> set (py_slice_from stack up)"
    and "not_in_packages (get_pkg (f_globals fr)) fp"
    by (auto simp: find_Some_iff)
  with f s show "\<exists>fr. List.find (\<lambda>f. not_in_packages (get_pkg (f_globals f)) fp)
                 (py_slice_from stack up) = Some fr
              \<and> fr \<in> set (py_slice_from stack up)
              \<and> not_in_packages (get_pkg (f_globals fr)) fp
              \<and> s = filename fr @ '':'' @ str_int (lineno fr)" by blast
qed

lemmas sample_frames =
  frame_util_def frame_wrapper_def frame_driver_def frame_app_def

lemmas get_source_unfold =
  get_source_def py_index_def py_slice_from_def not_in_packages_def get_pkg_def
  rpartition_head_def str_int_def

theorem C10_get_source_skip_set_witness:
  "list_all (\<lambda>f. \<not> not_in_packages (get_pkg (f_globals f)) [''mongodrums'', ''pymongo''])
     (py_slice_from [frame_util, frame_wrapper, frame_driver] 2)
   \<and> get_source (Some [''mongodrums'', ''pymongo'']) 2 [frame_util, frame_wrapper, frame_driver]
       = Inl IndexError
   \<and> get_source (Some [''mongodrums'', ''pymongo'']) 2
         [frame_util, frame_wrapper, frame_driver, frame_app] = Inr ''app.py:42''
   \<and> List.find (\<lambda>f. not_in_packages (get_pkg (f_globals f)) [''mongodrums'', ''pymongo''])
         (py_slice_from [frame_util, frame_wrapper, frame_driver, frame_app] 2) = Some frame_app"
proof -
  have h1: "list_all (\<lambda>f. \<not> not_in_packages (get_pkg (f_globals f)) [''mongodrums'', ''pymongo''])
     (py_slice_from [frame_util, frame_wrapper, frame_driver] 2)"
    by (simp add: get_source_unfold sample_frames)
  have h2: "get_source (Some [''mongodrums'', ''pymongo'']) 2
         [frame_util, frame_wrapper, frame_driver, frame_app] = Inr ''app.py:42''"
    by (simp add: get_source_unfold sample_frames)
  from C10_get_source_skip_set[of "[''mongodrums'', ''pymongo'']"
      "[frame_util, frame_wrapper, frame_driver]" 2] h1
  have r1: "get_source (Some [''mongodrums'', ''pymongo'']) 2
      [frame_util, frame_wrapper, frame_driver] = Inl IndexError" by blast
  from C10_get_source_skip_set[of "[''mongodrums'', ''pymongo'']"
      "[frame_util, frame_wrapper, frame_driver, frame_app]" 2 "''app.py:42''"] h2
  obtain fr where
    "List.find (\<lambda>f. not_in_packages (get_pkg (f_globals f)) [''mongodrums'', ''pymongo''])
         (py_slice_from [frame_util, frame_wrapper, frame_driver, frame_app] 2) = Some fr"
    and "''app.py:42'' = filename fr @ '':'' @ str_int (lineno fr)" by blast
  moreover have "List.find (\<lambda>f. not_in_packages (get_pkg (f_globals f)) [''mongodrums'', ''pymongo''])
         (py_slice_from [frame_util, frame_wrapper, frame_driver, frame_app] 2) = Some frame_app"
    by (simp add: get_source_unfold sample_frames)
  ultimately show ?thesis using h1 h2 r1 by simp
qed

section \<open>Where the utilities escape, and where they raise\<close>

text \<open>
  On a document whose values, reached through lists and plain dictionaries, have
  allowed types, \<open>sanitize\<close> returns the document with the keys of those dictionaries
  escaped and everything else as it was (\<open>sanitize_escapes_keys\<close>). A value of another
  type so reached makes \<open>sanitize\<close> and \<open>desanitize\<close> raise the invalid-document error;
  \<open>_p_skeleton\<close>, which also looks below \<^verbatim>\<open>SON\<close> documents, raises it for such a value at
  any position.
\<close>


lemma fst_escaped_items: "map fst (escaped_items d) = map (\<lambda>kv. sanitize_key (fst kv)) d"
  by (induction d) auto

lemma sanitize_escapes_aux:
  "(allowed_plain v \<longrightarrow> escapes_apart v \<longrightarrow> p_sanitize v = Inr (escaped v))"
  "(allowed_plain_list xs \<longrightarrow> escapes_apart_list xs \<longrightarrow> sanitize_list xs = Inr (escaped_list xs))"
  "(allowed_plain_items kvs \<longrightarrow> escapes_apart_items kvs \<longrightarrow>
      sanitize_items kvs = Inr (escaped_items kvs))"
  by (induction v and xs and kvs rule: p_sanitize_sanitize_list_sanitize_items.induct)
    (auto simp: leaf_in_BSON_TYPES SON_in_BSON_TYPES dict_of_distinct fst_escaped_items)

lemma map_sum_id_Inl: "(map_sum id f r = Inl e) = (r = Inl e)"
  by (cases r) auto

lemma sanitize_error_kind:
  "(p_sanitize v = Inl e \<longrightarrow> (\<exists>n. e = InvalidDocument (T_other n)))"
  "(sanitize_list xs = Inl e \<longrightarrow> (\<exists>n. e = InvalidDocument (T_other n)))"
  "(sanitize_items kvs = Inl e \<longrightarrow> (\<exists>n. e = InvalidDocument (T_other n)))"
  by (induction v and xs and kvs rule: p_sanitize_sanitize_list_sanitize_items.induct)
    (auto simp: map_sum_id_Inl leaf_in_BSON_TYPES SON_in_BSON_TYPES split: sum.splits if_splits)

lemma sanitize_raises_some:
  "(\<not> allowed_plain v \<longrightarrow> (\<exists>e. p_sanitize v = Inl e))"
  "(\<not> allowed_plain_list xs \<longrightarrow> (\<exists>e. sanitize_list xs = Inl e))"
  "(\<not> allowed_plain_items kvs \<longrightarrow> (\<exists>e. sanitize_items kvs = Inl e))"
  by (induction v and xs and kvs rule: p_sanitize_sanitize_list_sanitize_items.induct)
    (auto simp: other_notin_BSON_TYPES split: sum.splits)

lemma sanitize_raises_invalid:
  "\<not> allowed_plain v \<Longrightarrow> \<exists>n. sanitize v = Inl (InvalidDocument (T_other n))"
  using sanitize_raises_some(1)[of v] sanitize_error_kind(1)[of v]
  by (auto simp: sanitize_def)

lemma desanitize_error_kind:
  "(p_desanitize v = Inl e \<longrightarrow> (\<exists>n. e = InvalidDocument (T_other n)))"
  "(desanitize_list xs = Inl e \<longrightarrow> (\<exists>n. e = InvalidDocument (T_other n)))"
  "(desanitize_items kvs = Inl e \<longrightarrow> (\<exists>n. e = InvalidDocument (T_other n)))"
  by (induction v and xs and kvs rule: p_desanitize_desanitize_list_desanitize_items.induct)
    (auto simp: map_sum_id_Inl leaf_in_BSON_TYPES SON_in_BSON_TYPES split: sum.splits if_splits)

lemma desanitize_raises_some:
  "(\<not> allowed_plain v \<longrightarrow> (\<exists>e. p_desanitize v = Inl e))"
  "(\<not> allowed_plain_list xs \<longrightarrow> (\<exists>e. desanitize_list xs = Inl e))"
  "(\<not> allowed_plain_items kvs \<longrightarrow> (\<exists>e. desanitize_items kvs = Inl e))"
  by (induction v and xs and kvs rule: p_desanitize_desanitize_list_desanitize_items.induct)
    (auto simp: other_notin_BSON_TYPES split: sum.splits)

lemma desanitize_raises_invalid:
  "\<not> allowed_plain v \<Longrightarrow> \<exists>n. desanitize v = Inl (InvalidDocument (T_other n))"
  using desanitize_raises_some(1)[of v] desanitize_error_kind(1)[of v]
  by (auto simp: desanitize_def)

lemma sanitize_escapes_keys:
  "allowed_plain v \<Longrightarrow> escapes_apart v \<Longrightarrow> sanitize v = Inr (escaped v)"
  using sanitize_escapes_aux(1)[of v] by (simp add: sanitize_def)

lemma skeleton_error_kind:
  "(p_skeleton v = Inl e \<longrightarrow> (\<exists>n. e = InvalidDocument (T_other n)))"
  "(skeleton_elements xs out = Inl e \<longrightarrow> (\<exists>n. e = InvalidDocument (T_other n)))"
  "(set ks \<subseteq> fst ` set d \<longrightarrow> skeleton_keys d ks out = Inl e \<longrightarrow>
      (\<exists>n. e = InvalidDocument (T_other n)))"
proof (induction v and xs out and d ks out rule: p_skeleton_skeleton_elements_skeleton_keys.induct)
  case (8 d key rest out)
  show ?case
  proof (intro impI)
    assume sub: "set (key # rest) \<subseteq> fst ` set d"
      and err: "skeleton_keys d (key # rest) out = Inl e"
    then obtain v where v: "map_of d key = Some v"
      by (metis list.set_intros(1) subsetD weak_map_of_SomeI imageE prod.collapse map_of_eq_None_iff not_None_eq)
    from sub have sub': "set rest \<subseteq> fst ` set d" by simp
    show "\<exists>n. e = InvalidDocument (T_other n)"
    proof (cases "p_skeleton v")
      case (Inl e')
      with err v have "e' = e" by simp
      with Inl 8(1)[OF v] show ?thesis by simp
    next
      case (Inr sub)
      with err v 8(2)[OF v Inr] sub' show ?thesis by simp
    qed
  qed
qed (auto simp: map_sum_id_Inl leaf_in_BSON_TYPES split: sum.splits if_splits)


lemma wf_items_lookup: "wf_items d \<Longrightarrow> map_of d k = Some v \<Longrightarrow> wf_val v"
  by (induction d) (auto split: if_splits)

lemma not_allowed_items_key:
  "\<not> allowed_items d \<Longrightarrow> distinct (map fst d) \<Longrightarrow>
   \<exists>k\<in>set (map fst d). \<exists>v. map_of d k = Some v \<and> \<not> allowed v"
proof (induction d)
  case Nil
  then show ?case by simp
next
  case (Cons kv d)
  obtain k v where kv: "kv = (k, v)" by (cases kv)
  show ?case
  proof (cases "allowed v")
    case False
    with kv show ?thesis by auto
  next
    case True
    with Cons.prems kv have "\<not> allowed_items d" and "distinct (map fst d)" and "k \<notin> fst ` set d"
      by auto
    with Cons.IH obtain k' v' where "k' \<in> set (map fst d)" "map_of d k' = Some v'" "\<not> allowed v'"
      by blast
    with \<open>k \<notin> fst ` set d\<close> kv show ?thesis by auto
  qed
qed

lemma skeleton_raises_some:
  "(wf_val v \<longrightarrow> \<not> allowed v \<longrightarrow> (\<exists>e. p_skeleton v = Inl e))"
  "(wf_list xs \<longrightarrow> \<not> allowed_list xs \<longrightarrow> (\<exists>e. skeleton_elements xs out = Inl e))"
  "(wf_items d \<longrightarrow> set ks \<subseteq> fst ` set d \<longrightarrow>
      (\<exists>k\<in>set ks. \<exists>v. map_of d k = Some v \<and> \<not> allowed v) \<longrightarrow>
      (\<exists>e. skeleton_keys d ks out = Inl e))"
proof (induction v and xs out and d ks out rule: p_skeleton_skeleton_elements_skeleton_keys.induct)
  case (2 d)
  show ?case
  proof (intro impI)
    assume wf: "wf_val (PDict d)" and na: "\<not> allowed (PDict d)"
    then have "\<exists>k\<in>set (sort (map fst d)). \<exists>v. map_of d k = Some v \<and> \<not> allowed v"
      using not_allowed_items_key[of d] by simp
    with 2 wf obtain e where "skeleton_keys d (sort (map fst d)) [] = Inl e" by auto
    then show "\<exists>e. p_skeleton (PDict d) = Inl e" by simp
  qed
next
  case (3 d)
  show ?case
  proof (intro impI)
    assume wf: "wf_val (PSON d)" and na: "\<not> allowed (PSON d)"
    then have "\<exists>k\<in>set (sort (map fst d)). \<exists>v. map_of d k = Some v \<and> \<not> allowed v"
      using not_allowed_items_key[of d] by simp
    with 3 wf obtain e where "skeleton_keys d (sort (map fst d)) [] = Inl e" by auto
    then show "\<exists>e. p_skeleton (PSON d) = Inl e" by simp
  qed
next
  case (8 d key rest out)
  show ?case
  proof (intro impI)
    assume wf: "wf_items d" and sub: "set (key # rest) \<subseteq> fst ` set d"
      and bad: "\<exists>k\<in>set (key # rest). \<exists>v. map_of d k = Some v \<and> \<not> allowed v"
    from sub obtain v where v: "map_of d key = Some v"
      by (metis list.set_intros(1) subsetD weak_map_of_SomeI imageE prod.collapse map_of_eq_None_iff not_None_eq)
    from wf v have wv: "wf_val v" by (rule wf_items_lookup)
    from sub have sub': "set rest \<subseteq> fst ` set d" by simp
    show "\<exists>e. skeleton_keys d (key # rest) out = Inl e"
    proof (cases "p_skeleton v")
      case (Inl e)
      with v show ?thesis by simp
    next
      case (Inr sh)
      with 8(1)[OF v] wv have "allowed v" by auto
      with bad v have "\<exists>k\<in>set rest. \<exists>v. map_of d k = Some v \<and> \<not> allowed v" by auto
      with 8(2)[OF v Inr] wf sub' v Inr show ?thesis by simp
    qed
  qed
qed (auto simp: other_notin_BSON_TYPES split: sum.splits)

lemma skeleton_raises_invalid:
  "wf_val v \<Longrightarrow> \<not> allowed v \<Longrightarrow> \<exists>n. p_skeleton v = Inl (InvalidDocument (T_other n))"
  using skeleton_raises_some(1)[of v] skeleton_error_kind(1)[of v] by auto

chapter \<open>Properties of the sinks\<close>

section \<open>Updates of the first matching document\<close>


lemma update_first_none: "list_all (\<lambda>d. \<not> m d) col \<Longrightarrow> update_first m f col = col"
  by (induction col) auto

lemma update_first_last:
  "list_all (\<lambda>d. \<not> m d) col \<Longrightarrow>
   update_first m f (col @ [d]) = col @ [if m d then f d else d]"
  by (induction col) auto

lemma send_existing_doc:
  assumes fresh: "\<not> list_ex (has_key s c i) col"
    and ob: "observes s c i q index_only millis ev"
  shows "IndexProfileSink_send (col @ [\<lparr>d_session = s, d_collection = c, d_index = i, d_queries = qs\<rparr>]) ev a =
     (col @ [\<lparr>d_session = s, d_collection = c, d_index = i,
              d_queries = update_first (\<lambda>e. q_query e = q) (bump index_only millis)
                 (if list_all (\<lambda>e. q_query e \<noteq> q) qs
                  then qs @ [\<lparr>q_query = q, q_count = 0, q_durations = [], q_covered = None\<rparr>]
                  else qs)\<rparr>], None)"
proof -
  let ?doc = "\<lparr>d_session = s, d_collection = c, d_index = i, d_queries = qs\<rparr>"
  have n1: "list_all (\<lambda>d. \<not> (has_key s c i d \<and> list_all (\<lambda>e. q_query e \<noteq> q) (d_queries d))) col"
    using fresh by (auto simp: list_all_iff list_ex_iff)
  have n2: "list_all (\<lambda>d. \<not> (has_key s c i d \<and> list_ex (\<lambda>e. q_query e = q) (d_queries d))) col"
    using fresh by (auto simp: list_all_iff list_ex_iff)
  have dup: "ip_insert (col @ [?doc]) \<lparr>d_session = s, d_collection = c, d_index = i, d_queries = []\<rparr>
      = Inl DuplicateKeyError"
    by (simp add: ip_insert_def has_key_def)
  have p: "push_new_query s c i q (col @ [?doc]) =
      col @ [?doc\<lparr>d_queries := (if list_all (\<lambda>e. q_query e \<noteq> q) qs
                  then qs @ [\<lparr>q_query = q, q_count = 0, q_durations = [], q_covered = None\<rparr>]
                  else qs)\<rparr>]"
    unfolding push_new_query_def using update_first_last[OF n1]
    by (simp add: has_key_def)
  have ex: "list_ex (\<lambda>e. q_query e = q) (if list_all (\<lambda>e. q_query e \<noteq> q) qs
                  then qs @ [\<lparr>q_query = q, q_count = 0, q_durations = [], q_covered = None\<rparr>]
                  else qs)"
    by (auto simp: list_all_iff list_ex_iff)
  have r: "record_query s c i q index_only millis
      (col @ [?doc\<lparr>d_queries := (if list_all (\<lambda>e. q_query e \<noteq> q) qs
                  then qs @ [\<lparr>q_query = q, q_count = 0, q_durations = [], q_covered = None\<rparr>]
                  else qs)\<rparr>]) =
      col @ [\<lparr>d_session = s, d_collection = c, d_index = i,
              d_queries = update_first (\<lambda>e. q_query e = q) (bump index_only millis)
                 (if list_all (\<lambda>e. q_query e \<noteq> q) qs
                  then qs @ [\<lparr>q_query = q, q_count = 0, q_durations = [], q_covered = None\<rparr>]
                  else qs)\<rparr>]"
    unfolding record_query_def using update_first_last[OF n2] ex
    by (simp add: has_key_def bump_def[abs_def])
  show ?thesis
    using ob dup p r
    by (simp add: IndexProfileSink_send_def send_updates_def observes_def)
qed

lemma send_fresh_key:
  assumes fresh: "\<not> list_ex (has_key s c i) col"
    and ob: "observes s c i q index_only millis ev"
  shows "IndexProfileSink_send col ev a =
     (col @ [\<lparr>d_session = s, d_collection = c, d_index = i,
              d_queries = [\<lparr>q_query = q, q_count = 1, q_durations = [millis],
                            q_covered = Some index_only\<rparr>]\<rparr>], None)"
proof -
  let ?doc = "\<lparr>d_session = s, d_collection = c, d_index = i, d_queries = []\<rparr>"
  have n1: "list_all (\<lambda>d. \<not> (has_key s c i d \<and> list_all (\<lambda>e. q_query e \<noteq> q) (d_queries d))) col"
    using fresh by (auto simp: list_all_iff list_ex_iff)
  have n2: "list_all (\<lambda>d. \<not> (has_key s c i d \<and> list_ex (\<lambda>e. q_query e = q) (d_queries d))) col"
    using fresh by (auto simp: list_all_iff list_ex_iff)
  have ins: "ip_insert col ?doc = Inr (col @ [?doc])"
    using fresh by (simp add: ip_insert_def)
  have p: "push_new_query s c i q (col @ [?doc]) =
      col @ [?doc\<lparr>d_queries := [\<lparr>q_query = q, q_count = 0, q_durations = [], q_covered = None\<rparr>]\<rparr>]"
    unfolding push_new_query_def using update_first_last[OF n1]
    by (simp add: has_key_def)
  have r: "record_query s c i q index_only millis
      (col @ [?doc\<lparr>d_queries := [\<lparr>q_query = q, q_count = 0, q_durations = [], q_covered = None\<rparr>]\<rparr>]) =
      col @ [\<lparr>d_session = s, d_collection = c, d_index = i,
              d_queries = [\<lparr>q_query = q, q_count = 1, q_durations = [millis],
                            q_covered = Some index_only\<rparr>]\<rparr>]"
    unfolding record_query_def using update_first_last[OF n2]
    by (simp add: has_key_def)
  show ?thesis
    using ob ins p r
    by (simp add: IndexProfileSink_send_def send_updates_def observes_def)
qed


lemma send_all_existing:
  assumes fresh: "\<not> list_ex (has_key s c i) col"
  shows "list_all (\<lambda>ev. observes s c i q (io ev) (ms ev) ev) evs \<Longrightarrow>
     send_all (col @ [\<lparr>d_session = s, d_collection = c, d_index = i,
                 d_queries = [\<lparr>q_query = q, q_count = n, q_durations = ds, q_covered = cov\<rparr>]\<rparr>]) evs =
       (col @ [\<lparr>d_session = s, d_collection = c, d_index = i,
                 d_queries = [\<lparr>q_query = q, q_count = n + int (length evs),
                    q_durations = ds @ map ms evs,
                    q_covered = (if evs = [] then cov else Some (io (last evs)))\<rparr>]\<rparr>], None)"
proof (induction evs arbitrary: n ds cov)
  case Nil
  show ?case by simp
next
  case (Cons ev evs)
  from Cons.prems have ob: "observes s c i q (io ev) (ms ev) ev"
    and rest: "list_all (\<lambda>ev. observes s c i q (io ev) (ms ev) ev) evs" by simp_all
  have step: "IndexProfileSink_send
      (col @ [\<lparr>d_session = s, d_collection = c, d_index = i,
                 d_queries = [\<lparr>q_query = q, q_count = n, q_durations = ds, q_covered = cov\<rparr>]\<rparr>]) ev [] =
      (col @ [\<lparr>d_session = s, d_collection = c, d_index = i,
                 d_queries = [\<lparr>q_query = q, q_count = n + 1, q_durations = ds @ [ms ev],
                                q_covered = Some (io ev)\<rparr>]\<rparr>], None)"
    using send_existing_doc[OF fresh ob, of "[\<lparr>q_query = q, q_count = n, q_durations = ds, q_covered = cov\<rparr>]" "[]"]
    by (simp add: bump_def)
  show ?case
    using step Cons.IH[OF rest, of "n + 1" "ds @ [ms ev]" "Some (io ev)"]
    by simp
qed

lemma send_all_fresh:
  assumes fresh: "\<not> list_ex (has_key s c i) col"
    and obs: "list_all (\<lambda>ev. observes s c i q (io ev) (ms ev) ev) evs"
    and ne: "evs \<noteq> []"
  shows "send_all col evs =
       (col @ [\<lparr>d_session = s, d_collection = c, d_index = i,
                 d_queries = [\<lparr>q_query = q, q_count = int (length evs),
                    q_durations = map ms evs,
                    q_covered = Some (io (last evs))\<rparr>]\<rparr>], None)"
proof (cases evs)
  case Nil
  with ne show ?thesis by simp
next
  case (Cons ev rest)
  with obs have ob: "observes s c i q (io ev) (ms ev) ev"
    and r: "list_all (\<lambda>ev. observes s c i q (io ev) (ms ev) ev) rest" by simp_all
  show ?thesis
    using send_fresh_key[OF fresh ob, of "[]"] send_all_existing[OF fresh r, of 1 "[ms ev]" "Some (io ev)"] Cons
    by simp
qed

lemma send_other_query:
  assumes fresh: "\<not> list_ex (has_key s c i) col"
    and ob: "observes s c i q' index_only millis ev"
    and diff: "q' \<noteq> q"
  shows "IndexProfileSink_send
      (col @ [\<lparr>d_session = s, d_collection = c, d_index = i,
                 d_queries = [\<lparr>q_query = q, q_count = n, q_durations = ds, q_covered = cov\<rparr>]\<rparr>]) ev a =
      (col @ [\<lparr>d_session = s, d_collection = c, d_index = i,
                 d_queries = [\<lparr>q_query = q, q_count = n, q_durations = ds, q_covered = cov\<rparr>,
                              \<lparr>q_query = q', q_count = 1, q_durations = [millis],
                                q_covered = Some index_only\<rparr>]\<rparr>], None)"
  using send_existing_doc[OF fresh ob, of "[\<lparr>q_query = q, q_count = n, q_durations = ds, q_covered = cov\<rparr>]" a] diff
  by (simp add: bump_def)


text \<open>
  Claim C3: after the index-profile sink has sent \<open>N \<ge> 1\<close> events of one session,
  collection, plan cursor and query, starting from a collection with no document of
  that key triple, the collection holds one document of the triple, whose \<open>queries\<close>
  is one entry with \<open>count = N\<close>, the \<open>N\<close> durations (in order) and \<open>covered\<close> the
  \<open>indexOnly\<close> of the last event; a further event of the triple with another query
  appends a second entry and leaves the first as it is. Every send returns normally.
\<close>

theorem C3_index_profile_counts:
  assumes "evs \<noteq> []"
    and "list_all (\<lambda>ev. observes s c i q (io ev) (ms ev) ev) evs"
    and "\<not> list_ex (has_key s c i) col"
  shows "send_all col evs =
       (col @ [\<lparr>d_session = s, d_collection = c, d_index = i,
                 d_queries = [\<lparr>q_query = q, q_count = int (length evs),
                    q_durations = map ms evs,
                    q_covered = Some (io (last evs))\<rparr>]\<rparr>], None)
     \<and> filter (has_key s c i) (fst (send_all col evs)) =
         [\<lparr>d_session = s, d_collection = c, d_index = i,
                 d_queries = [\<lparr>q_query = q, q_count = int (length evs),
                    q_durations = map ms evs,
                    q_covered = Some (io (last evs))\<rparr>]\<rparr>]
     \<and> (observes s c i q' index_only millis ev' \<longrightarrow> q' \<noteq> q \<longrightarrow>
          IndexProfileSink_send (fst (send_all col evs)) ev' a =
            (col @ [\<lparr>d_session = s, d_collection = c, d_index = i,
                 d_queries = [\<lparr>q_query = q, q_count = int (length evs),
                                q_durations = map ms evs,
                                q_covered = Some (io (last evs))\<rparr>,
                              \<lparr>q_query = q', q_count = 1, q_durations = [millis],
                                q_covered = Some index_only\<rparr>]\<rparr>], None))"
proof -
  note all = send_all_fresh[OF assms(3) assms(2) assms(1)]
  have "filter (has_key s c i) col = []"
    using assms(3) by (auto simp: list_ex_iff filter_empty_conv)
  then have one: "filter (has_key s c i) (fst (send_all col evs)) =
         [\<lparr>d_session = s, d_collection = c, d_index = i,
                 d_queries = [\<lparr>q_query = q, q_count = int (length evs),
                    q_durations = map ms evs,
                    q_covered = Some (io (last evs))\<rparr>]\<rparr>]"
    by (simp add: all has_key_def)
  show ?thesis
    using all one send_other_query[OF assms(3), of q' index_only millis ev' q]
    by simp
qed

theorem C3_index_profile_counts_witness:
  "send_all [] [sample_event ''{a: 1}'' ''False'' ''3'', sample_event ''{a: 1}'' ''True'' ''5'',
               sample_event ''{a: 1}'' ''False'' ''4'']
     = ([\<lparr>d_session = ''s1'', d_collection = ''foo'', d_index = PLeaf T_str ''BtreeCursor name_1'',
          d_queries = [\<lparr>q_query = ''{a: 1}'', q_count = 3,
                         q_durations = [PLeaf T_int ''3'', PLeaf T_int ''5'', PLeaf T_int ''4''],
                         q_covered = Some (PLeaf T_bool ''False'')\<rparr>]\<rparr>], None)
   \<and> IndexProfileSink_send
        (fst (send_all [] [sample_event ''{a: 1}'' ''False'' ''3'', sample_event ''{a: 1}'' ''True'' ''5'',
               sample_event ''{a: 1}'' ''False'' ''4''])) (sample_event ''{b: 1}'' ''True'' ''9'') []
     = ([\<lparr>d_session = ''s1'', d_collection = ''foo'', d_index = PLeaf T_str ''BtreeCursor name_1'',
          d_queries = [\<lparr>q_query = ''{a: 1}'', q_count = 3,
                         q_durations = [PLeaf T_int ''3'', PLeaf T_int ''5'', PLeaf T_int ''4''],
                         q_covered = Some (PLeaf T_bool ''False'')\<rparr>,
                       \<lparr>q_query = ''{b: 1}'', q_count = 1, q_durations = [PLeaf T_int ''9''],
                         q_covered = Some (PLeaf T_bool ''True'')\<rparr>]\<rparr>], None)"
proof -
  let ?evs = "[sample_event ''{a: 1}'' ''False'' ''3'', sample_event ''{a: 1}'' ''True'' ''5'',
               sample_event ''{a: 1}'' ''False'' ''4'']"
  let ?i = "PLeaf T_str ''BtreeCursor name_1''"
  have h1: "?evs \<noteq> []" by simp
  have h2: "list_all (\<lambda>ev. observes ''s1'' ''foo'' ?i ''{a: 1}''
               (plan_field ''indexOnly'' ev) (plan_field ''millis'' ev) ev) ?evs"
    by (simp add: observes_def sample_event_def plan_field_def)
  have h3: "\<not> list_ex (has_key ''s1'' ''foo'' ?i) []" by simp
  have h4: "observes ''s1'' ''foo'' ?i ''{b: 1}'' (PLeaf T_bool ''True'') (PLeaf T_int ''9'')
              (sample_event ''{b: 1}'' ''True'' ''9'')"
    by (simp add: observes_def sample_event_def)
  have h5: "''{b: 1}'' \<noteq> ''{a: 1}''" by simp
  have vals: "map (plan_field ''millis'') ?evs = [PLeaf T_int ''3'', PLeaf T_int ''5'', PLeaf T_int ''4'']"
    "plan_field ''indexOnly'' (last ?evs) = PLeaf T_bool ''False''"
    "int (length ?evs) = 3"
    by (simp_all add: sample_event_def plan_field_def)
  note r = C3_index_profile_counts[OF h1 h2 h3, of "''{b: 1}''" "PLeaf T_bool ''True''"
      "PLeaf T_int ''9''" "sample_event ''{b: 1}'' ''True'' ''9''" "[]"]
  from r[unfolded vals append_Nil] h4 h5 show ?thesis by blast
qed

section \<open>Filtering before sending\<close>

lemma startswith_dollar:
  "startswith s ''$'' = (s \<noteq> [] \<and> hd s = CHR ''$'')"
  by (cases s) (simp_all add: startswith_def)

text \<open>
  Claim C9: \<open>handle\<close> calls \<open>send\<close> exactly when \<open>filter\<close> returns false, and leaves the
  collections as they are (and raises nothing) when it returns true; this holds for
  the method \<open>Sink.handle\<close> over any \<open>filter\<close> and \<open>send\<close>, and so for the two concrete
  sinks, whose \<open>filter\<close> is true exactly when the event's collection name starts with
  a dollar sign.
\<close>

theorem C9_handle_filter_send:
  "Sink_handle filter_method send_method st data address =
     (if filter_method data address then (st, None) else send_method st data address)
   \<and> handle sk db data address =
     (if sink_filter sk data address then (db, None) else sink_send sk db data address)
   \<and> sink_filter sk data address =
       (ev_collection data \<noteq> [] \<and> hd (ev_collection data) = CHR ''$'')"
  by (cases sk)
    (simp_all add: Sink_handle_def handle_def ProfileSink_filter_def QueryProfileSink_filter_def
      startswith_dollar)

chapter \<open>Properties of the interceptors\<close>

section \<open>The result of an intercepted call\<close>


lemma try_explain_handled:
  "explain_handled en cur \<Longrightarrow> \<exists>st' plan. try_explain en st cur = (st', Inr plan)"
  by (auto simp: try_explain_def explain_handled_def split: sum.splits)

lemma try_explain_ids: "ids (fst (try_explain en st cur)) = ids st"
  by (auto simp: try_explain_def split: sum.splits)

lemma try_explain_push_calls: "push_calls (fst (try_explain en st cur)) = push_calls st"
  by (auto simp: try_explain_def split: sum.splits)

lemma try_push_ids: "ids (try_push en st about built msg) = ids st"
  by (auto simp: try_push_def split: sum.splits option.splits)

lemma try_push_push_calls:
  "push_calls (try_push en st about built msg) =
     push_calls st @ (case built of Inl e \<Rightarrow> [] | Inr ev \<Rightarrow> [(about, ev)])"
  by (auto simp: try_push_def split: sum.splits option.splits)

lemma cursor_call_result:
  assumes "c_id cur \<in> ids st \<longrightarrow> explain_handled en cur"
  shows "snd (CursorMethodWrapper_call self en st cur args kw) = w_func self cur args kw"
proof (cases "c_id cur \<in> ids st")
  case False
  then show ?thesis by (simp add: CursorMethodWrapper_call_def)
next
  case True
  with assms have "explain_handled en cur" by simp
  from try_explain_handled[OF this] obtain st' plan
    where "try_explain en (st\<lparr>ids := ids st - {c_id cur}\<rparr>) cur = (st', Inr plan)" by blast
  with True show ?thesis by (simp add: CursorMethodWrapper_call_def)
qed

lemma update_call_result:
  assumes "env_random en < w_frequency self \<longrightarrow>
      (\<exists>a rest st1 curs. args = a # rest \<and> find_method coll a st = (st1, Inr curs)
          \<and> explain_handled en curs)"
  shows "snd (UpdateWrapper_call self en find_method st coll args kw) = w_func self coll args kw"
proof (cases "env_random en < w_frequency self")
  case False
  then show ?thesis by (simp add: UpdateWrapper_call_def)
next
  case True
  with assms obtain a rest st1 curs where a: "args = a # rest"
    and f: "find_method coll a st = (st1, Inr curs)" and h: "explain_handled en curs" by blast
  from try_explain_handled[OF h] obtain st' plan
    where "try_explain en st1 curs = (st', Inr plan)" by blast
  with True a f show ?thesis by (simp add: UpdateWrapper_call_def)
qed


text \<open>
  Claim C1, as stated: every intercepted call returns what the original operation
  returns, and no failure of plan retrieval, event construction or push reaches the
  caller. The handler around plan retrieval names \<^verbatim>\<open>TypeError\<close> and \<^verbatim>\<open>OperationFailure\<close>
  only: on a tracked cursor whose \<open>explain\<close> raises anything else (here a lost
  connection) the interceptor of \<open>next\<close> raises it, where the original operation
  returns a document.
\<close>

theorem C1_interceptor_result_counterexample:
  "c_id sample_cursor \<in> ids \<lparr>ids = {7}, push_calls = [], logged = []\<rparr>
   \<and> snd (CursorMethodWrapper_call sample_next (sample_env (Inl (OtherException ''AutoReconnect'')))
          \<lparr>ids = {7}, push_calls = [], logged = []\<rparr> sample_cursor [] [])
       = Inl (OtherException ''AutoReconnect'')
   \<and> w_func sample_next sample_cursor [] [] = Inr ''doc''"
  by (simp add: CursorMethodWrapper_call_def try_explain_def caught_by_explain_handler_def
      sample_env_def sample_next_def sample_cursor_def)

text \<open>
  Claim C1, amended: an intercepted terminal operation on a cursor returns what the
  original operation returns with the original arguments when the cursor is not
  tracked, or plan retrieval returns or raises a \<^verbatim>\<open>TypeError\<close> or an \<^verbatim>\<open>OperationFailure\<close>;
  an intercepted update does when it is not sampled, or its query is the first
  positional argument, the \<open>find\<close> it issues returns a cursor and plan retrieval on it
  returns or raises one of the two. Whatever building the event or \<open>push\<close> raises
  does not reach the caller.
\<close>

theorem C1_interceptor_result_amended:
  "((c_id cur \<in> ids st \<longrightarrow> explain_handled en cur) \<longrightarrow>
      snd (CursorMethodWrapper_call self en st cur args kw) = w_func self cur args kw)
   \<and> ((env_random en < w_frequency uself \<longrightarrow>
         (\<exists>a rest st1 curs. uargs = a # rest \<and> find_method coll a st = (st1, Inr curs)
            \<and> explain_handled en curs)) \<longrightarrow>
      snd (UpdateWrapper_call uself en find_method st coll uargs kw) = w_func uself coll uargs kw)"
  using cursor_call_result[of cur st en self args kw]
    update_call_result[of en uself uargs find_method coll st kw]
  by blast

theorem C1_interceptor_result_amended_witness:
  "c_id sample_cursor \<in> ids \<lparr>ids = {7}, push_calls = [], logged = []\<rparr>
   \<and> explain_handled
        ((sample_env (Inl TypeError))\<lparr>env_push := (\<lambda>ev. Some (OtherException ''socket.error''))\<rparr>)
        sample_cursor
   \<and> snd (CursorMethodWrapper_call sample_next
            ((sample_env (Inl TypeError))\<lparr>env_push := (\<lambda>ev. Some (OtherException ''socket.error''))\<rparr>)
            \<lparr>ids = {7}, push_calls = [], logged = []\<rparr> sample_cursor [] []) = Inr ''doc''
   \<and> env_random
        ((sample_env (Inl TypeError))\<lparr>env_push := (\<lambda>ev. Some (OtherException ''socket.error''))\<rparr>)
        < w_frequency sample_update
   \<and> snd (UpdateWrapper_call sample_update
            ((sample_env (Inl TypeError))\<lparr>env_push := (\<lambda>ev. Some (OtherException ''socket.error''))\<rparr>)
            sample_find \<lparr>ids = {7}, push_calls = [], logged = []\<rparr>
            \<lparr>col_database = ''test'', col_name = ''foo''\<rparr> [PDict [(''name'', PLeaf T_str ''zed'')]] [])
       = Inr ''ok''"
proof -
  let ?en = "(sample_env (Inl TypeError))\<lparr>env_push := (\<lambda>ev. Some (OtherException ''socket.error''))\<rparr>"
  let ?st = "\<lparr>ids = {7}, push_calls = [], logged = []\<rparr>"
  let ?coll = "\<lparr>col_database = ''test'', col_name = ''foo''\<rparr>"
  let ?args = "[PDict [(''name'', PLeaf T_str ''zed'')]]"
  have h1: "c_id sample_cursor \<in> ids ?st" by (simp add: sample_cursor_def)
  have h2: "explain_handled ?en sample_cursor"
    by (simp add: explain_handled_def sample_env_def caught_by_explain_handler_def)
  have h3: "env_random ?en < w_frequency sample_update"
    by (simp add: sample_env_def sample_update_def)
  have h4: "\<exists>a rest st1 curs. ?args = a # rest \<and> sample_find ?coll a ?st = (st1, Inr curs)
      \<and> explain_handled ?en curs"
    using h2 by (simp add: sample_find_def)
  have f1: "w_func sample_next sample_cursor [] [] = Inr ''doc''" by (simp add: sample_next_def)
  have f2: "w_func sample_update ?coll ?args [] = Inr ''ok''" by (simp add: sample_update_def)
  from C1_interceptor_result_amended[of sample_cursor ?st ?en sample_next "[]" "[]"
      sample_update ?args sample_find ?coll] h1 h2 h3 h4 f1 f2
  show ?thesis by metis
qed

text \<open>A sampled update whose query is passed by keyword: \<^verbatim>\<open>args[0]\<close> stands outside both
  \<^verbatim>\<open>try\<close> statements.\<close>

lemma update_keyword_query_raises:
  "snd (UpdateWrapper_call sample_update (sample_env (Inr (PDict []))) sample_find
          \<lparr>ids = {}, push_calls = [], logged = []\<rparr> \<lparr>col_database = ''test'', col_name = ''foo''\<rparr>
          [] [(''spec'', PDict []), (''document'', PDict [])]) = Inl IndexError
   \<and> w_func sample_update \<lparr>col_database = ''test'', col_name = ''foo''\<rparr>
          [] [(''spec'', PDict []), (''document'', PDict [])] = Inr ''ok''"
  by (simp add: UpdateWrapper_call_def sample_update_def sample_env_def)

section \<open>One event for a tracked cursor\<close>
lemma do_call_other:
  assumes "c_id (tc_cursor k) \<noteq> i"
  shows "pushed_for i (fst (do_call st k)) = pushed_for i st"
    and "(i \<in> ids (fst (do_call st k))) = (i \<in> ids st)"
proof -
  obtain st2 r where te: "try_explain (tc_env k) (st\<lparr>ids := ids st - {c_id (tc_cursor k)}\<rparr>) (tc_cursor k) = (st2, r)"
    by (cases "try_explain (tc_env k) (st\<lparr>ids := ids st - {c_id (tc_cursor k)}\<rparr>) (tc_cursor k)")
  have i2: "ids st2 = ids st - {c_id (tc_cursor k)}" and p2: "push_calls st2 = push_calls st"
    using try_explain_ids[of "tc_env k" "st\<lparr>ids := ids st - {c_id (tc_cursor k)}\<rparr>" "tc_cursor k"]
      try_explain_push_calls[of "tc_env k" "st\<lparr>ids := ids st - {c_id (tc_cursor k)}\<rparr>" "tc_cursor k"] te
    by simp_all
  show "pushed_for i (fst (do_call st k)) = pushed_for i st"
    using assms te p2
    by (auto simp: do_call_def CursorMethodWrapper_call_def pushed_for_def try_push_push_calls
        split: sum.splits)
  show "(i \<in> ids (fst (do_call st k))) = (i \<in> ids st)"
    using assms te i2
    by (auto simp: do_call_def CursorMethodWrapper_call_def try_push_ids split: sum.splits)
qed

lemma do_call_untracked:
  "c_id (tc_cursor k) \<notin> ids st \<Longrightarrow> fst (do_call st k) = st"
  by (simp add: do_call_def CursorMethodWrapper_call_def)

lemma do_call_tracked:
  assumes "c_id (tc_cursor k) = i" and "i \<in> ids st"
  shows "i \<notin> ids (fst (do_call st k))"
    and "pushed_for i (fst (do_call st k)) = pushed_for i st + (if builds_event k then 1 else 0)"
proof -
  obtain st2 r where te: "try_explain (tc_env k) (st\<lparr>ids := ids st - {i}\<rparr>) (tc_cursor k) = (st2, r)"
    by (cases "try_explain (tc_env k) (st\<lparr>ids := ids st - {i}\<rparr>) (tc_cursor k)")
  have i2: "ids st2 = ids st - {i}" and p2: "push_calls st2 = push_calls st"
    using try_explain_ids[of "tc_env k" "st\<lparr>ids := ids st - {i}\<rparr>" "tc_cursor k"]
      try_explain_push_calls[of "tc_env k" "st\<lparr>ids := ids st - {i}\<rparr>" "tc_cursor k"] te
    by simp_all
  show "i \<notin> ids (fst (do_call st k))"
    using assms te i2
    by (auto simp: do_call_def CursorMethodWrapper_call_def try_push_ids split: sum.splits)
  have r: "(\<exists>plan. r = Inr plan) = explain_handled (tc_env k) (tc_cursor k)"
    using te by (auto simp: try_explain_def explain_handled_def split: sum.splits if_splits)
  show "pushed_for i (fst (do_call st k)) = pushed_for i st + (if builds_event k then 1 else 0)"
    using assms te p2 r
    by (auto simp: do_call_def CursorMethodWrapper_call_def pushed_for_def try_push_push_calls
        builds_event_def build_event_def split: sum.splits)
qed


lemma do_call_not_tracked_any:
  assumes "i \<notin> ids st"
  shows "i \<notin> ids (fst (do_call st k))" and "pushed_for i (fst (do_call st k)) = pushed_for i st"
proof -
  show "i \<notin> ids (fst (do_call st k))"
  proof (cases "c_id (tc_cursor k) = i")
    case True
    with assms show ?thesis by (simp add: do_call_untracked)
  next
    case False
    with assms do_call_other(2)[OF False, of st] show ?thesis by simp
  qed
  show "pushed_for i (fst (do_call st k)) = pushed_for i st"
  proof (cases "c_id (tc_cursor k) = i")
    case True
    with assms show ?thesis by (simp add: do_call_untracked)
  next
    case False
    then show ?thesis by (rule do_call_other(1))
  qed
qed

lemma run_calls_untracked:
  "i \<notin> ids st \<Longrightarrow> i \<notin> ids (run_calls st ks) \<and> pushed_for i (run_calls st ks) = pushed_for i st"
proof (induction ks arbitrary: st)
  case Nil
  then show ?case by simp
next
  case (Cons k ks)
  from do_call_not_tracked_any[OF Cons.prems, of k]
  have a: "i \<notin> ids (fst (do_call st k))"
    and b: "pushed_for i (fst (do_call st k)) = pushed_for i st" by simp_all
  from Cons.IH[OF a] b show ?case by simp
qed

lemma run_calls_append: "run_calls st (ks @ ks') = run_calls (run_calls st ks) ks'"
  by (induction ks arbitrary: st) simp_all

lemma run_calls_others:
  "list_all (\<lambda>k. c_id (tc_cursor k) \<noteq> i) ks \<Longrightarrow>
   (i \<in> ids (run_calls st ks)) = (i \<in> ids st) \<and> pushed_for i (run_calls st ks) = pushed_for i st"
proof (induction ks arbitrary: st)
  case Nil
  then show ?case by simp
next
  case (Cons k ks)
  then have k: "c_id (tc_cursor k) \<noteq> i"
    and r: "list_all (\<lambda>k. c_id (tc_cursor k) \<noteq> i) ks" by simp_all
  from Cons.IH[OF r, of "fst (do_call st k)"] do_call_other[OF k, of st]
  show ?case by simp
qed

lemma run_calls_at_most_one:
  "pushed_for i (run_calls st ks) \<le> pushed_for i st + (if i \<in> ids st then 1 else 0)"
proof (induction ks arbitrary: st)
  case Nil
  then show ?case by simp
next
  case (Cons k ks)
  show ?case
  proof (cases "i \<in> ids st")
    case False
    with run_calls_untracked[OF False, of "k # ks"] show ?thesis by simp
  next
    case True
    show ?thesis
    proof (cases "c_id (tc_cursor k) = i")
      case same: True
      from do_call_tracked[OF same True]
      have a: "i \<notin> ids (fst (do_call st k))"
        and b: "pushed_for i (fst (do_call st k)) \<le> pushed_for i st + 1" by simp_all
      from run_calls_untracked[OF a, of ks] b True show ?thesis by simp
    next
      case other: False
      from do_call_other[OF other, of st] True
      have a: "i \<in> ids (fst (do_call st k))"
        and b: "pushed_for i (fst (do_call st k)) = pushed_for i st" by simp_all
      from Cons.IH[of "fst (do_call st k)"] a b True show ?thesis by simp
    qed
  qed
qed

lemma track_cursor_facts:
  "c_id c \<in> ids (track_cursor st c)" "pushed_for i (track_cursor st c) = pushed_for i st"
  by (simp_all add: track_cursor_def pushed_for_def)


text \<open>
  Claim C2, as stated: for a cursor that \<open>track_cursor\<close> has added, the first terminal
  operation that finds it tracked removes it and pushes one event, and no later
  operation pushes another. The cursor is removed before the plan is retrieved and
  the event is built; when building the event raises (here \<open>get_source\<close> finds every
  frame in the skipped packages) the failure is caught and logged, the operation
  returns its document, the cursor is no longer tracked, and no event about it is
  pushed by this operation or by any later one.
\<close>

theorem C2_at_most_one_event_per_cursor_counterexample:
  "c_id sample_cursor \<in> ids (track_cursor \<lparr>ids = {}, push_calls = [], logged = []\<rparr> sample_cursor)
   \<and> tc_cursor sample_call_unsourced = sample_cursor
   \<and> c_id sample_cursor \<notin>
        ids (fst (do_call (track_cursor \<lparr>ids = {}, push_calls = [], logged = []\<rparr> sample_cursor)
                    sample_call_unsourced))
   \<and> snd (do_call (track_cursor \<lparr>ids = {}, push_calls = [], logged = []\<rparr> sample_cursor)
             sample_call_unsourced) = Inr ''doc''
   \<and> pushed_for (c_id sample_cursor)
        (run_calls (track_cursor \<lparr>ids = {}, push_calls = [], logged = []\<rparr> sample_cursor)
           [sample_call_unsourced]) = 0
   \<and> pushed_for (c_id sample_cursor)
        (run_calls (track_cursor \<lparr>ids = {}, push_calls = [], logged = []\<rparr> sample_cursor)
           [sample_call_unsourced, sample_call (Inr (PDict [])), sample_call (Inr (PDict []))]) = 0"
  by (simp add: track_cursor_def do_call_def CursorMethodWrapper_call_def try_explain_def
      try_push_def build_event_def pushed_for_def sample_call_unsourced_def sample_call_def
      sample_env_def sample_next_def sample_cursor_def get_source_unfold sample_frames)

text \<open>
  Claim C2, amended: once \<open>track_cursor\<close> has added a cursor, any sequence of terminal
  operations (on it and on other cursors) calls \<open>push\<close> at most once with an event
  about it. The first operation on it finds it tracked and removes it; it calls
  \<open>push\<close> once when plan retrieval returns or raises what the handler names and the
  event is built (\<open>dumps\<close> and \<open>get_source\<close> return), and not at all otherwise; no later
  operation calls \<open>push\<close> about it.
\<close>

theorem C2_at_most_one_event_per_cursor:
  "pushed_for (c_id c) (run_calls (track_cursor st c) ks) \<le> pushed_for (c_id c) st + 1
   \<and> (list_all (\<lambda>k. c_id (tc_cursor k) \<noteq> c_id c) pre \<longrightarrow> c_id (tc_cursor k) = c_id c \<longrightarrow>
        c_id c \<in> ids (run_calls (track_cursor st c) pre)
        \<and> c_id c \<notin> ids (run_calls (track_cursor st c) (pre @ [k]))
        \<and> pushed_for (c_id c) (run_calls (track_cursor st c) (pre @ [k])) =
            pushed_for (c_id c) st + (if builds_event k then 1 else 0)
        \<and> pushed_for (c_id c) (run_calls (track_cursor st c) (pre @ k # post)) =
            pushed_for (c_id c) (run_calls (track_cursor st c) (pre @ [k])))"
proof (intro conjI impI)
  show "pushed_for (c_id c) (run_calls (track_cursor st c) ks) \<le> pushed_for (c_id c) st + 1"
    using run_calls_at_most_one[of "c_id c" "track_cursor st c" ks]
    by (simp add: track_cursor_facts)
next
  assume pre: "list_all (\<lambda>k. c_id (tc_cursor k) \<noteq> c_id c) pre"
    and k: "c_id (tc_cursor k) = c_id c"
  let ?s = "run_calls (track_cursor st c) pre"
  from run_calls_others[OF pre, of "track_cursor st c"]
  have tr: "c_id c \<in> ids ?s" and pu: "pushed_for (c_id c) ?s = pushed_for (c_id c) st"
    by (simp_all add: track_cursor_facts)
  show "c_id c \<in> ids ?s" by (rule tr)
  from do_call_tracked[OF k tr]
  have gone: "c_id c \<notin> ids (fst (do_call ?s k))"
    and cnt: "pushed_for (c_id c) (fst (do_call ?s k)) =
       pushed_for (c_id c) ?s + (if builds_event k then 1 else 0)" by simp_all
  show "c_id c \<notin> ids (run_calls (track_cursor st c) (pre @ [k]))"
    using gone by (simp add: run_calls_append)
  show "pushed_for (c_id c) (run_calls (track_cursor st c) (pre @ [k])) =
            pushed_for (c_id c) st + (if builds_event k then 1 else 0)"
    using cnt pu by (simp add: run_calls_append)
  show "pushed_for (c_id c) (run_calls (track_cursor st c) (pre @ k # post)) =
            pushed_for (c_id c) (run_calls (track_cursor st c) (pre @ [k]))"
    using run_calls_untracked[OF gone, of post] by (simp add: run_calls_append)
qed


theorem C2_at_most_one_event_per_cursor_witness:
  "list_all (\<lambda>k. c_id (tc_cursor k) \<noteq> c_id sample_cursor)
      [(sample_call (Inr (PDict [])))\<lparr>tc_cursor := sample_cursor\<lparr>c_id := 8\<rparr>\<rparr>]
   \<and> c_id (tc_cursor (sample_call (Inr (PDict [])))) = c_id sample_cursor
   \<and> builds_event (sample_call (Inr (PDict [])))
   \<and> pushed_for (c_id sample_cursor)
        (run_calls (track_cursor \<lparr>ids = {}, push_calls = [], logged = []\<rparr> sample_cursor)
          ([(sample_call (Inr (PDict [])))\<lparr>tc_cursor := sample_cursor\<lparr>c_id := 8\<rparr>\<rparr>]
            @ sample_call (Inr (PDict []))
            # [sample_call (Inr (PDict [])), sample_call (Inl TypeError)])) = 1"
proof -
  let ?pre = "[(sample_call (Inr (PDict [])))\<lparr>tc_cursor := sample_cursor\<lparr>c_id := 8\<rparr>\<rparr>]"
  let ?k = "sample_call (Inr (PDict []))"
  let ?post = "[sample_call (Inr (PDict [])), sample_call (Inl TypeError)]"
  let ?st = "\<lparr>ids = {}, push_calls = [], logged = []\<rparr>"
  have h1: "list_all (\<lambda>k. c_id (tc_cursor k) \<noteq> c_id sample_cursor) ?pre"
    by (simp add: sample_call_def sample_cursor_def)
  have h2: "c_id (tc_cursor ?k) = c_id sample_cursor" by (simp add: sample_call_def)
  have h3: "builds_event ?k"
    by (simp add: builds_event_def explain_handled_def sample_call_def sample_env_def
        sample_next_def get_source_unfold sample_frames)
  have z: "pushed_for (c_id sample_cursor) ?st = 0" by (simp add: pushed_for_def)
  note r = C2_at_most_one_event_per_cursor[of sample_cursor ?st "[]" ?pre ?k ?post]
  from r h1 h2
  have a: "pushed_for (c_id sample_cursor) (run_calls (track_cursor ?st sample_cursor) (?pre @ [?k])) =
            pushed_for (c_id sample_cursor) ?st + (if builds_event ?k then 1 else 0)"
    and b: "pushed_for (c_id sample_cursor) (run_calls (track_cursor ?st sample_cursor) (?pre @ ?k # ?post)) =
            pushed_for (c_id sample_cursor) (run_calls (track_cursor ?st sample_cursor) (?pre @ [?k]))"
    by blast+
  have "pushed_for (c_id sample_cursor) (run_calls (track_cursor ?st sample_cursor) (?pre @ ?k # ?post)) = 1"
    unfolding b a using h3 z by simp
  with h1 h2 h3 show ?thesis by blast
qed

section \<open>Installing twice, removing, removing twice\<close>


lemma find_wrap_installs:
  assumes "\<not> isinstance_find (Collection_find st)"
  shows "\<exists>oid ws. Collection_find (fst (FindWrapper_wrap st)) =
           FindInstance oid (Collection_find st) (Some ws)
         \<and> snd (FindWrapper_wrap st) = FindInstance oid (Collection_find st) (Some ws)"
  using assms by (simp add: FindWrapper_wrap_def Let_def split: prod.splits)

lemma find_unwrap_installed:
  assumes "Collection_find st = FindInstance oid f (Some ws)"
  shows "Collection_find (fst (FindWrapper_unwrap st)) = f" and "snd (FindWrapper_unwrap st) = None"
  using assms by (simp_all add: FindWrapper_unwrap_def Let_def)

lemma find_unwrap_absent:
  assumes "\<not> isinstance_find (Collection_find st)"
  shows "FindWrapper_unwrap st = (st, None)"
  using assms by (cases "Collection_find st") (simp_all add: FindWrapper_unwrap_def)

lemma update_wrap_installs:
  assumes "\<not> isinstance_update (Collection_update st)"
  shows "\<exists>oid. Collection_update (fst (UpdateWrapper_wrap st)) =
           UpdateInstance oid (Collection_update st)
         \<and> snd (UpdateWrapper_wrap st) = UpdateInstance oid (Collection_update st)"
  using assms by (simp add: UpdateWrapper_wrap_def Let_def register_update_callback_def)

lemma update_unwrap_installed:
  assumes "Collection_update st = UpdateInstance oid f"
  shows "Collection_update (UpdateWrapper_unwrap st) = f"
  using assms by (simp add: UpdateWrapper_unwrap_def)

lemma update_unwrap_absent:
  assumes "\<not> isinstance_update (Collection_update st)"
  shows "UpdateWrapper_unwrap st = st"
  using assms by (cases "Collection_update st") (simp_all add: UpdateWrapper_unwrap_def)


text \<open>
  Claim C6, for the find and the update interceptor classes: \<open>wrap\<close> on a target that
  is already an instance of the class changes nothing and returns the target;
  \<open>unwrap\<close> on an installed interceptor puts back the operation that the instance
  wraps (and so, after a \<open>wrap\<close> that installed it, the operation that was there before);
  \<open>unwrap\<close> with no interceptor installed changes nothing.
\<close>

theorem C6_wrap_unwrap_idempotent:
  "(isinstance_find (Collection_find st) \<longrightarrow> FindWrapper_wrap st = (st, Collection_find st))
   \<and> (isinstance_update (Collection_update st) \<longrightarrow>
        UpdateWrapper_wrap st = (st, Collection_update st))
   \<and> (Collection_find st = FindInstance oid f (Some ws) \<longrightarrow>
        Collection_find (fst (FindWrapper_unwrap st)) = f \<and> snd (FindWrapper_unwrap st) = None)
   \<and> (Collection_update st = UpdateInstance oid' g \<longrightarrow>
        Collection_update (UpdateWrapper_unwrap st) = g)
   \<and> (\<not> isinstance_find (Collection_find st) \<longrightarrow> FindWrapper_unwrap st = (st, None))
   \<and> (\<not> isinstance_update (Collection_update st) \<longrightarrow> UpdateWrapper_unwrap st = st)
   \<and> (\<not> isinstance_find (Collection_find st) \<longrightarrow>
        isinstance_find (Collection_find (fst (FindWrapper_wrap st)))
        \<and> FindWrapper_unwrap (fst (FindWrapper_wrap st)) =
            (fst (FindWrapper_unwrap (fst (FindWrapper_wrap st))), None)
        \<and> Collection_find (fst (FindWrapper_unwrap (fst (FindWrapper_wrap st)))) = Collection_find st)
   \<and> (\<not> isinstance_update (Collection_update st) \<longrightarrow>
        isinstance_update (Collection_update (fst (UpdateWrapper_wrap st)))
        \<and> Collection_update (UpdateWrapper_unwrap (fst (UpdateWrapper_wrap st))) =
            Collection_update st)"
proof (intro conjI impI)
  show "FindWrapper_wrap st = (st, Collection_find st)" if "isinstance_find (Collection_find st)"
    using that by (simp add: FindWrapper_wrap_def)
  show "UpdateWrapper_wrap st = (st, Collection_update st)"
    if "isinstance_update (Collection_update st)"
    using that by (simp add: UpdateWrapper_wrap_def)
  show "Collection_find (fst (FindWrapper_unwrap st)) = f"
    if "Collection_find st = FindInstance oid f (Some ws)"
    using that by (rule find_unwrap_installed)
  show "snd (FindWrapper_unwrap st) = None"
    if "Collection_find st = FindInstance oid f (Some ws)"
    using that by (rule find_unwrap_installed)
  show "Collection_update (UpdateWrapper_unwrap st) = g"
    if "Collection_update st = UpdateInstance oid' g"
    using that by (rule update_unwrap_installed)
  show "FindWrapper_unwrap st = (st, None)" if "\<not> isinstance_find (Collection_find st)"
    using that by (rule find_unwrap_absent)
  show "UpdateWrapper_unwrap st = st" if "\<not> isinstance_update (Collection_update st)"
    using that by (rule update_unwrap_absent)
next
  assume n: "\<not> isinstance_find (Collection_find st)"
  from find_wrap_installs[OF n] obtain o1 ws1 where
    w: "Collection_find (fst (FindWrapper_wrap st)) = FindInstance o1 (Collection_find st) (Some ws1)"
    by blast
  show "isinstance_find (Collection_find (fst (FindWrapper_wrap st)))" using w by simp
  show "Collection_find (fst (FindWrapper_unwrap (fst (FindWrapper_wrap st)))) = Collection_find st"
    using find_unwrap_installed(1)[OF w] .
  show "FindWrapper_unwrap (fst (FindWrapper_wrap st)) =
            (fst (FindWrapper_unwrap (fst (FindWrapper_wrap st))), None)"
    using find_unwrap_installed(2)[OF w] by (simp add: prod_eq_iff)
next
  assume n: "\<not> isinstance_update (Collection_update st)"
  from update_wrap_installs[OF n] obtain o1 where
    w: "Collection_update (fst (UpdateWrapper_wrap st)) = UpdateInstance o1 (Collection_update st)"
    by blast
  show "isinstance_update (Collection_update (fst (UpdateWrapper_wrap st)))" using w by simp
  show "Collection_update (UpdateWrapper_unwrap (fst (UpdateWrapper_wrap st))) = Collection_update st"
    using update_unwrap_installed[OF w] .
qed


theorem C6_wrap_unwrap_idempotent_witness:
  "\<not> isinstance_find (Collection_find pristine)
   \<and> \<not> isinstance_update (Collection_update pristine)
   \<and> FindWrapper_unwrap pristine = (pristine, None)
   \<and> UpdateWrapper_unwrap pristine = pristine
   \<and> isinstance_find (Collection_find (fst (FindWrapper_wrap pristine)))
   \<and> FindWrapper_wrap (fst (FindWrapper_wrap pristine)) =
       (fst (FindWrapper_wrap pristine), Collection_find (fst (FindWrapper_wrap pristine)))
   \<and> Collection_find (fst (FindWrapper_unwrap (fst (FindWrapper_wrap pristine)))) =
       Original ''Collection.find''
   \<and> isinstance_update (Collection_update (fst (UpdateWrapper_wrap pristine)))
   \<and> UpdateWrapper_wrap (fst (UpdateWrapper_wrap pristine)) =
       (fst (UpdateWrapper_wrap pristine), Collection_update (fst (UpdateWrapper_wrap pristine)))
   \<and> Collection_update (UpdateWrapper_unwrap (fst (UpdateWrapper_wrap pristine))) =
       Original ''Collection.update''"
proof -
  have h1: "\<not> isinstance_find (Collection_find pristine)" by (simp add: pristine_def)
  have h2: "\<not> isinstance_update (Collection_update pristine)" by (simp add: pristine_def)
  have o1: "Collection_find pristine = Original ''Collection.find''"
    and o2: "Collection_update pristine = Original ''Collection.update''"
    by (simp_all add: pristine_def)
  note p = C6_wrap_unwrap_idempotent[of pristine]
  from p h1 h2 have a: "FindWrapper_unwrap pristine = (pristine, None)"
    and b: "UpdateWrapper_unwrap pristine = pristine"
    and c: "isinstance_find (Collection_find (fst (FindWrapper_wrap pristine)))"
    and d: "Collection_find (fst (FindWrapper_unwrap (fst (FindWrapper_wrap pristine)))) =
       Collection_find pristine"
    and e: "isinstance_update (Collection_update (fst (UpdateWrapper_wrap pristine)))"
    and f: "Collection_update (UpdateWrapper_unwrap (fst (UpdateWrapper_wrap pristine))) =
       Collection_update pristine"
    by blast+
  from C6_wrap_unwrap_idempotent[of "fst (FindWrapper_wrap pristine)"] c
  have g: "FindWrapper_wrap (fst (FindWrapper_wrap pristine)) =
       (fst (FindWrapper_wrap pristine), Collection_find (fst (FindWrapper_wrap pristine)))"
    by blast
  from C6_wrap_unwrap_idempotent[of "fst (UpdateWrapper_wrap pristine)"] e
  have h: "UpdateWrapper_wrap (fst (UpdateWrapper_wrap pristine)) =
       (fst (UpdateWrapper_wrap pristine), Collection_update (fst (UpdateWrapper_wrap pristine)))"
    by blast
  from h1 h2 a b c d e f g h o1 o2 show ?thesis by simp
qed

text \<open>On the driver as it is loaded, installing and removing the find interceptor puts
  back the find operation and the three cursor operations, and leaves no callback.\<close>

lemma find_wrap_unwrap_pristine:
  "FindWrapper_unwrap (fst (FindWrapper_wrap pristine)) = (pristine\<lparr>next_oid := 4\<rparr>, None)"
  by (simp add: FindWrapper_wrap_def FindWrapper_unwrap_def pristine_def cursor_terminators_def
      CursorMethodWrapper_wrap_def CursorMethodWrapper_unwrap_def register_update_callback_def
      unregister_update_callback_def Let_def)

end
